theory Spec2Isabelle
  imports Complex_Main "HOL-Library.Sublist" "HOL-Library.Log_Nat"
begin

section \<open>Strings of the dashboard\<close>

text \<open>
  The dashboard (src/src/components/Dashboard.tsx) works on JavaScript strings. A string
  is modelled as a list of code units, and a \<^typ>\<open>char\<close> stands for the code unit with
  the same number, so the model covers the texts whose code units lie in U+0000..U+00FF
  (Latin-1). On these, \<^verbatim>\<open>length\<close> is the list's length, \<^verbatim>\<open>toLowerCase\<close> maps each
  code unit on its own, and the class \<^verbatim>\<open>\s\<close> of a regular expression (which is also what
  \<^verbatim>\<open>trim\<close> removes) holds the seven code units below.
\<close>

definition is_space :: "char \<Rightarrow> bool" where
  "is_space c = (of_char c \<in> {9, 10, 11, 12, 13, 32, 160 :: int})"

definition lower_char :: "char \<Rightarrow> char" where
  "lower_char c =
     (let n = of_char c :: int
      in if (65 \<le> n \<and> n \<le> 90) \<or> (192 \<le> n \<and> n \<le> 222 \<and> n \<noteq> 215)
         then char_of (n + 32) else c)"

definition toLowerCase :: "string \<Rightarrow> string" where
  "toLowerCase s = map lower_char s"

text \<open>
  \<^verbatim>\<open>s.split(/\s+/)\<close>: the pieces of \<open>s\<close> between the maximal runs of white space. A run
  at the start or at the end of \<open>s\<close> leaves an empty piece there, and the empty string
  gives one empty piece.
\<close>

function split_ws :: "string \<Rightarrow> string list" where
  "split_ws s =
     (case dropWhile (\<lambda>c. \<not> is_space c) s of
        [] \<Rightarrow> [s]
      | sep # rest \<Rightarrow> takeWhile (\<lambda>c. \<not> is_space c) s # split_ws (dropWhile is_space rest))"
  by pat_completeness auto

termination
proof (relation "measure length")
  show "wf (measure (length :: string \<Rightarrow> nat))"
    by simp
next
  fix s :: string and sep rest
  assume d: "dropWhile (\<lambda>c. \<not> is_space c) s = sep # rest"
  have "length (dropWhile is_space rest) \<le> length rest"
    by (rule length_dropWhile_le)
  also have "length rest < length (dropWhile (\<lambda>c. \<not> is_space c) s)"
    by (simp add: d)
  also have "\<dots> \<le> length s"
    by (rule length_dropWhile_le)
  finally show "(dropWhile is_space rest, s) \<in> measure length"
    by simp
qed

definition trim :: "string \<Rightarrow> string" where
  "trim s = rev (dropWhile is_space (rev (dropWhile is_space s)))"

section \<open>Keyword extraction\<close>

text \<open>
  \<^verbatim>\<open>extractTopKeywords\<close> (Dashboard.tsx, lines 72-89). The pooled words are the pieces of
  the lower-cased texts that are no stop word and longer than two code units.
\<close>

definition stopWords :: "string set" where
  "stopWords = {''the'', ''be'', ''to'', ''of'', ''and'', ''a'', ''in'', ''that'', ''have''}"

definition words_of :: "string list \<Rightarrow> string list" where
  "words_of texts =
     concat (map (\<lambda>t. filter (\<lambda>word. word \<notin> stopWords \<and> length word > 2)
                          (split_ws (toLowerCase t))) texts)"

text \<open>
  The counts are kept in a plain object literal \<^verbatim>\<open>{}\<close>, whose prototype is
  \<^verbatim>\<open>Object.prototype\<close>. A value of the language, as far as this function meets them:
  \<^verbatim>\<open>undefined\<close>, a number (here a natural number), a string, and an object or function,
  of which only the string it converts to under \<^verbatim>\<open>+\<close> matters.
\<close>

datatype jsval = Undefined | Num nat | Str string | Obj string

text \<open>
  The properties of \<^verbatim>\<open>Object.prototype\<close>, each with the string its value converts to:
  the built-in functions print as native code (in the layout of the V8 engine; other
  engines differ in white space only), and the getter of \<^verbatim>\<open>__proto__\<close> returns
  \<^verbatim>\<open>Object.prototype\<close> itself.
\<close>

definition Object_prototype :: "string \<Rightarrow> string option" where
  "Object_prototype k =
     (if k = ''__proto__'' then Some ''[object Object]''
      else if k = ''constructor'' then Some ''function Object() { [native code] }''
      else if k \<in> {''__defineGetter__'', ''__defineSetter__'', ''hasOwnProperty'',
                     ''__lookupGetter__'', ''__lookupSetter__'', ''isPrototypeOf'',
                     ''propertyIsEnumerable'', ''toString'', ''valueOf'', ''toLocaleString''}
      then Some (''function '' @ k @ ''() { [native code] }'')
      else None)"

text \<open>
  An object is the list of its own properties in the order of their creation.
  \<^verbatim>\<open>acc[word]\<close> reads an own property, else the inherited one, else \<^verbatim>\<open>undefined\<close>.
\<close>

type_synonym obj = "(string \<times> jsval) list"

definition get_prop :: "obj \<Rightarrow> string \<Rightarrow> jsval" where
  "get_prop acc k =
     (case map_of acc k of
        Some v \<Rightarrow> v
      | None \<Rightarrow> (case Object_prototype k of Some t \<Rightarrow> Obj t | None \<Rightarrow> Undefined))"

text \<open>
  \<^verbatim>\<open>(v || 0) + 1\<close>: \<^verbatim>\<open>undefined\<close>, \<open>0\<close> and the empty string are falsy and give \<open>0 + 1\<close>; a
  number is incremented; to a non-empty string, and to an object's string, \<^verbatim>\<open>+\<close> appends
  the text of \<open>1\<close>.
\<close>

fun or_zero_plus_one :: "jsval \<Rightarrow> jsval" where
  "or_zero_plus_one Undefined = Num 1"
| "or_zero_plus_one (Num n) = Num (n + 1)"
| "or_zero_plus_one (Str s) = (if s = [] then Num 1 else Str (s @ ''1''))"
| "or_zero_plus_one (Obj t) = Str (t @ ''1'')"

text \<open>
  \<^verbatim>\<open>acc[word] = v\<close> overwrites an own property where it stands and creates a new one at
  the end. \<^verbatim>\<open>__proto__\<close> is an accessor of the prototype: the assignment calls its
  setter, which ignores a value that is neither an object nor \<^verbatim>\<open>null\<close>, and no own
  property appears.
\<close>

fun set_own :: "obj \<Rightarrow> string \<Rightarrow> jsval \<Rightarrow> obj" where
  "set_own [] k v = [(k, v)]"
| "set_own ((k', v') # ps) k v =
     (if k' = k then (k, v) # ps else (k', v') # set_own ps k v)"

definition set_prop :: "obj \<Rightarrow> string \<Rightarrow> jsval \<Rightarrow> obj" where
  "set_prop acc k v =
     (if k = ''__proto__'' \<and> map_of acc k = None then acc else set_own acc k v)"

definition bump :: "obj \<Rightarrow> string \<Rightarrow> obj" where
  "bump acc word = set_prop acc word (or_zero_plus_one (get_prop acc word))"

definition wordCounts :: "string list \<Rightarrow> obj" where
  "wordCounts ws = foldl bump [] ws"

text \<open>
  \<^verbatim>\<open>Object.entries\<close> lists the own properties whose key is an array index (a decimal
  numeral without a leading zero, below \<open>2\<^sup>3\<^sup>2 - 1\<close>) first, in ascending numeric order,
  and then the other keys in the order of their creation.
\<close>

definition is_digit :: "char \<Rightarrow> bool" where
  "is_digit c = (48 \<le> (of_char c :: int) \<and> (of_char c :: int) \<le> 57)"

definition digits_value :: "string \<Rightarrow> int" where
  "digits_value s = foldl (\<lambda>n c. 10 * n + (of_char c - 48)) 0 s"

definition is_array_index :: "string \<Rightarrow> bool" where
  "is_array_index s =
     (case s of
        [] \<Rightarrow> False
      | c # cs \<Rightarrow> list_all is_digit s \<and> (cs = [] \<or> c \<noteq> CHR ''0'')
                   \<and> digits_value s < 4294967295)"

definition Object_entries :: "obj \<Rightarrow> (string \<times> jsval) list" where
  "Object_entries acc =
     sort_key (\<lambda>e. digits_value (fst e)) (filter (\<lambda>e. is_array_index (fst e)) acc)
     @ filter (\<lambda>e. \<not> is_array_index (fst e)) acc"

text \<open>
  The comparison function \<^verbatim>\<open>(a, b) => b[1] - a[1]\<close>. The subtraction converts both counts
  to numbers. The only strings that \<open>bump\<close> stores are the text of a function or object
  followed by ones (\<open>wordCounts_stored_count\<close> below); they convert to \<^verbatim>\<open>NaN\<close>, and so
  does the difference, which is \<open>None\<close> here. \<^verbatim>\<open>Array.prototype.sort\<close> takes a \<^verbatim>\<open>NaN\<close>
  from the comparison function for \<open>+0\<close>.
\<close>

fun to_number :: "jsval \<Rightarrow> int option" where
  "to_number (Num n) = Some (int n)"
| "to_number v = None"

definition compare_counts :: "string \<times> jsval \<Rightarrow> string \<times> jsval \<Rightarrow> int option" where
  "compare_counts a b =
     (case (to_number (snd b), to_number (snd a)) of
        (Some y, Some x) \<Rightarrow> Some (y - x)
      | _ \<Rightarrow> None)"

definition SortCompare :: "('a \<Rightarrow> 'a \<Rightarrow> int option) \<Rightarrow> 'a \<Rightarrow> 'a \<Rightarrow> int" where
  "SortCompare comparefn a b = (case comparefn a b of None \<Rightarrow> 0 | Some v \<Rightarrow> v)"

text \<open>
  \<^verbatim>\<open>Array.prototype.sort\<close> is stable. It is modelled by the stable insertion sort: for a
  comparison function that is a consistent ordering (here: all counts are numbers) this
  is the one result the language allows. Where the comparison is not consistent (a
  string count next to two different numbers) the language leaves the order to the
  engine, and engines differ; the model then gives one admissible order, and the general
  lemmas below use the sort on numeric counts only.
\<close>

fun insort_cmp :: "('a \<Rightarrow> 'a \<Rightarrow> int) \<Rightarrow> 'a \<Rightarrow> 'a list \<Rightarrow> 'a list" where
  "insort_cmp cmp a [] = [a]"
| "insort_cmp cmp a (b # bs) =
     (if cmp a b \<le> 0 then a # b # bs else b # insort_cmp cmp a bs)"

definition Array_sort :: "('a \<Rightarrow> 'a \<Rightarrow> int option) \<Rightarrow> 'a list \<Rightarrow> 'a list" where
  "Array_sort comparefn xs = foldr (insort_cmp (SortCompare comparefn)) xs []"

record keywordCount =
  keyword :: string
  count :: jsval

definition extractTopKeywords :: "string list \<Rightarrow> keywordCount list" where
  "extractTopKeywords texts =
     map (\<lambda>e. \<lparr>keyword = fst e, count = snd e\<rparr>)
       (take 10 (Array_sort compare_counts (Object_entries (wordCounts (words_of texts)))))"

section \<open>Numbers\<close>

text \<open>
  A score is a JavaScript number, a 64-bit floating point value. A finite one is
  modelled by the rational it denotes, and the two infinities and \<^verbatim>\<open>NaN\<close> are values of
  their own. The sign of zero is left out: \<open>Fin 0\<close> stands for both zeros, which nothing
  that the model observes tells apart.

  An arithmetic operation returns the exact result rounded to the nearest value of the
  format, a tie going to the even significand. \<open>floor_log2 a\<close> is the binary exponent of
  a positive \<open>a\<close>. The values of the format near \<open>a\<close> are the multiples of \<open>2\<close> to the power
  \<open>floor_log2 a - 52\<close> (53 significant bits), and of \<open>2\<close> to the power \<open>-1074\<close> in the
  subnormal range; a rounded value that needs more than the exponent 1023 is an
  infinity.
\<close>

datatype number = Fin rat | PInf | NInf | NaN

definition round_half_even :: "rat \<Rightarrow> int" where
  "round_half_even x =
     (let f = \<lfloor>x\<rfloor>; r = x - of_int f
      in if r < 1 / 2 then f else if 1 / 2 < r then f + 1 else if even f then f else f + 1)"

definition floor_log2 :: "rat \<Rightarrow> int" where
  "floor_log2 a = (if 1 \<le> a then bitlen \<lfloor>a\<rfloor> - 1 else - bitlen (\<lceil>1 / a\<rceil> - 1))"

definition round_double :: "rat \<Rightarrow> number" where
  "round_double x =
     (if x = 0 then Fin 0
      else
        let a = \<bar>x\<bar>;
            e = max (floor_log2 a - 52) (- 1074);
            m = round_half_even (a / 2 powi e)
        in if 1024 < bitlen m + e then (if 0 < x then PInf else NInf)
           else Fin (if 0 < x then of_int m * 2 powi e else - (of_int m * 2 powi e)))"

fun num_add :: "number \<Rightarrow> number \<Rightarrow> number" where
  "num_add (Fin a) (Fin b) = round_double (a + b)"
| "num_add NaN b = NaN"
| "num_add a NaN = NaN"
| "num_add PInf NInf = NaN"
| "num_add NInf PInf = NaN"
| "num_add PInf b = PInf"
| "num_add a PInf = PInf"
| "num_add NInf b = NInf"
| "num_add a NInf = NInf"

fun num_gt :: "number \<Rightarrow> number \<Rightarrow> bool" where
  "num_gt (Fin a) (Fin b) = (a > b)"
| "num_gt NaN b = False"
| "num_gt a NaN = False"
| "num_gt a PInf = False"
| "num_gt NInf b = False"
| "num_gt PInf b = True"
| "num_gt a NInf = True"

definition num_lt :: "number \<Rightarrow> number \<Rightarrow> bool" where
  "num_lt a b = num_gt b a"

text \<open>
  \<^verbatim>\<open>sum / sentiments.length\<close>: the divisor is the length of an array. Dividing by zero
  raises nothing: it gives \<^verbatim>\<open>NaN\<close> for a zero dividend and an infinity otherwise. Any
  other quotient is rounded.
\<close>

fun div_by_length :: "number \<Rightarrow> nat \<Rightarrow> number" where
  "div_by_length (Fin a) n =
     (if n = 0 then (if a = 0 then NaN else if a > 0 then PInf else NInf)
      else round_double (a / of_nat n))"
| "div_by_length PInf n = PInf"
| "div_by_length NInf n = NInf"
| "div_by_length NaN n = NaN"

section \<open>The aggregation of \<^verbatim>\<open>handleAnalyze\<close>\<close>

text \<open>
  A post as \<^verbatim>\<open>fetchTweets\<close> returns it, and a result of \<^verbatim>\<open>analyzeSentiment\<close>, whose
  \<^verbatim>\<open>confidence\<close> may be absent. \<^verbatim>\<open>created_at\<close> is the number of milliseconds that
  \<^verbatim>\<open>new Date\<close> receives; a date string stands for the number it parses to, and a string
  that does not parse for a number out of the range of dates.
\<close>

record post =
  id_post :: string
  text_post :: string
  created_at :: int

record sentiment =
  score :: number
  confidence :: "number option"

record point =
  x_point :: string
  y_point :: number

record distribution =
  positive :: nat
  neutral :: nat
  negative :: nat

record aggregateResult =
  overallScore :: number
  sentimentOverTime :: "point list"
  sentimentDistribution :: distribution
  confidenceScores :: "number list"
  topKeywords :: "keywordCount list"

text \<open>A thrown value: an \<^verbatim>\<open>Error\<close> with its message, or anything else.\<close>

datatype thrown = Error string | NonError

text \<open>Line 41: the scores are added from the left, starting at 0, and the sum is divided.\<close>

definition overallScore_of :: "sentiment list \<Rightarrow> number" where
  "overallScore_of sentiments =
     div_by_length (foldl (\<lambda>acc cur. num_add acc (score cur)) (Fin 0) sentiments)
       (length sentiments)"

text \<open>
  \<^verbatim>\<open>new Date(v)\<close> holds the time value \<open>v\<close> when it lies within 8.64e15 milliseconds of the
  epoch, and is an invalid date otherwise (\<open>None\<close>). \<^verbatim>\<open>formatDistance\<close> of the library
  date-fns throws a \<^verbatim>\<open>RangeError\<close> on an invalid date; on valid dates it returns a text,
  and that function of two instants is a parameter of the model.
\<close>

definition new_Date :: "int \<Rightarrow> int option" where
  "new_Date v = (if \<bar>v\<bar> \<le> 8640000000000000 then Some v else None)"

definition formatDistance_call :: "(int \<Rightarrow> int \<Rightarrow> string) \<Rightarrow> int option \<Rightarrow> int \<Rightarrow> thrown + string" where
  "formatDistance_call formatDistance date baseDate =
     (case date of
        None \<Rightarrow> Inl (Error ''Invalid time value'')
      | Some t \<Rightarrow> Inr (formatDistance t baseDate))"

text \<open>\<^verbatim>\<open>Array.prototype.map\<close> with a callback that may throw: the first throw ends the loop.\<close>

fun map_throwing :: "('a \<Rightarrow> thrown + 'b) \<Rightarrow> 'a list \<Rightarrow> thrown + 'b list" where
  "map_throwing f [] = Inr []"
| "map_throwing f (a # xs) =
     (case f a of
        Inl e \<Rightarrow> Inl e
      | Inr b \<Rightarrow> (case map_throwing f xs of Inl e \<Rightarrow> Inl e | Inr bs \<Rightarrow> Inr (b # bs)))"

text \<open>
  Lines 42-45: the label of the \<open>i\<close>-th point is \<^verbatim>\<open>formatDistance\<close> of the post's date and
  of \<^verbatim>\<open>new Date()\<close>, the wall clock, which is read anew for every point: \<open>clock i\<close> is the
  reading taken for point \<open>i\<close>, a valid date. Reading \<^verbatim>\<open>created_at\<close> of a post that does
  not exist throws a \<^verbatim>\<open>TypeError\<close>, an \<^verbatim>\<open>Error\<close> whose message is the engine's. Inside
  \<open>handleAnalyze\<close> there is one sentiment for each post, and that branch is never taken.
\<close>

definition point_at ::
  "(int \<Rightarrow> int \<Rightarrow> string) \<Rightarrow> (nat \<Rightarrow> int) \<Rightarrow> post list \<Rightarrow> sentiment list \<Rightarrow> nat \<Rightarrow> thrown + point" where
  "point_at formatDistance clock fetchedPosts sentiments i =
     (if i < length fetchedPosts
      then (case formatDistance_call formatDistance
                   (new_Date (created_at (fetchedPosts ! i))) (clock i) of
              Inl e \<Rightarrow> Inl e
            | Inr label \<Rightarrow> Inr \<lparr>x_point = label, y_point = score (sentiments ! i)\<rparr>)
      else Inl (Error ''Cannot read properties of undefined''))"

definition sentimentOverTime_of ::
  "(int \<Rightarrow> int \<Rightarrow> string) \<Rightarrow> (nat \<Rightarrow> int) \<Rightarrow> post list \<Rightarrow> sentiment list \<Rightarrow> thrown + point list" where
  "sentimentOverTime_of formatDistance clock fetchedPosts sentiments =
     map_throwing (point_at formatDistance clock fetchedPosts sentiments) [0..<length sentiments]"

text \<open>Lines 47-52: one pass over the sentiments, one counter incremented for each.\<close>

definition count_sentiment :: "distribution \<Rightarrow> sentiment \<Rightarrow> distribution" where
  "count_sentiment acc cur =
     (if num_gt (score cur) (Fin (3 / 10)) then acc\<lparr>positive := positive acc + 1\<rparr>
      else if num_lt (score cur) (Fin (- (3 / 10))) then acc\<lparr>negative := negative acc + 1\<rparr>
      else acc\<lparr>neutral := neutral acc + 1\<rparr>)"

definition distribution_of :: "sentiment list \<Rightarrow> distribution" where
  "distribution_of sentiments =
     foldl count_sentiment \<lparr>positive = 0, neutral = 0, negative = 0\<rparr> sentiments"

text \<open>
  Line 58: \<^verbatim>\<open>s.confidence || 1\<close>. The operator takes its right side whenever the left
  one is falsy: \<^verbatim>\<open>undefined\<close>, but also \<open>0\<close> and \<^verbatim>\<open>NaN\<close>.
\<close>

fun or_one :: "number option \<Rightarrow> number" where
  "or_one None = Fin 1"
| "or_one (Some (Fin a)) = (if a = 0 then Fin 1 else Fin a)"
| "or_one (Some NaN) = Fin 1"
| "or_one (Some PInf) = PInf"
| "or_one (Some NInf) = NInf"

definition confidenceScores_of :: "sentiment list \<Rightarrow> number list" where
  "confidenceScores_of sentiments = map (\<lambda>s. or_one (confidence s)) sentiments"

text \<open>Lines 41-60: the value passed to \<^verbatim>\<open>setSentimentData\<close>, or what the block throws.\<close>

definition aggregate ::
  "(int \<Rightarrow> int \<Rightarrow> string) \<Rightarrow> (nat \<Rightarrow> int) \<Rightarrow> post list \<Rightarrow> sentiment list \<Rightarrow> thrown + aggregateResult" where
  "aggregate formatDistance clock fetchedPosts sentiments =
     (case sentimentOverTime_of formatDistance clock fetchedPosts sentiments of
        Inl e \<Rightarrow> Inl e
      | Inr points \<Rightarrow>
          Inr \<lparr>overallScore = overallScore_of sentiments,
               sentimentOverTime = points,
               sentimentDistribution = distribution_of sentiments,
               confidenceScores = confidenceScores_of sentiments,
               topKeywords = extractTopKeywords (map text_post fetchedPosts)\<rparr>)"

text \<open>Lines 125-126: the label shown under the overall score.\<close>

definition overallLabel :: "number \<Rightarrow> string" where
  "overallLabel s =
     (if num_gt s (Fin (3 / 10)) then ''Positive''
      else if num_lt s (Fin (- (3 / 10))) then ''Negative'' else ''Neutral'')"

section \<open>The workflow of \<^verbatim>\<open>handleAnalyze\<close>\<close>

text \<open>
  The state of the component (lines 13-23) and the notifications it has raised.
\<close>

datatype toast = Toast_error string | Toast_success string

record state =
  query :: string
  posts :: "post list"
  loading :: bool
  analyzing :: bool
  sentimentData :: aggregateResult
  toasts :: "toast list"

definition initial_state :: state where
  "initial_state =
     \<lparr>query = [], posts = [], loading = False, analyzing = False,
      sentimentData = \<lparr>overallScore = Fin 0, sentimentOverTime = [],
        sentimentDistribution = \<lparr>positive = 0, neutral = 0, negative = 0\<rparr>,
        confidenceScores = [], topKeywords = []\<rparr>,
      toasts = []\<rparr>"

text \<open>
  What the outside world does during one request: the outcome of \<^verbatim>\<open>fetchTweets\<close> for a
  query, the outcome of the \<open>i\<close>-th call of \<^verbatim>\<open>analyzeSentiment\<close> on a text, the instant
  at which the promise of that call settles, the readings of the wall clock, and the
  library function \<^verbatim>\<open>formatDistance\<close>.
\<close>

record env =
  fetchTweets :: "string \<Rightarrow> thrown + post list"
  analyzeSentiment :: "nat \<Rightarrow> string \<Rightarrow> thrown + sentiment"
  settled_at :: "nat \<Rightarrow> nat"
  wall_clock :: "nat \<Rightarrow> int"
  format_distance :: "int \<Rightarrow> int \<Rightarrow> string"

text \<open>
  \<^verbatim>\<open>Promise.all\<close> fulfils with all the values, in the order of the promises, when every
  promise fulfils; it rejects as soon as one promise rejects, with the reason of that
  one: the rejected promise that settles first (the smaller index on equal instants).
\<close>

definition first_rejection :: "(nat \<Rightarrow> nat) \<Rightarrow> (thrown + 'a) list \<Rightarrow> nat option" where
  "first_rejection settled rs =
     (case filter (\<lambda>i. isl (rs ! i)) [0..<length rs] of
        [] \<Rightarrow> None
      | i # js \<Rightarrow> Some (fold (\<lambda>j best. if settled j < settled best then j else best) js i))"

definition Promise_all :: "(nat \<Rightarrow> nat) \<Rightarrow> (thrown + 'a) list \<Rightarrow> thrown + 'a list" where
  "Promise_all settled rs =
     (case first_rejection settled rs of
        None \<Rightarrow> Inr (map projr rs)
      | Some i \<Rightarrow> Inl (projl (rs ! i)))"

text \<open>
  The \<^verbatim>\<open>catch\<close> block (lines 63-65) notifies the message of an \<^verbatim>\<open>Error\<close>, and a fixed
  text for any other thrown value; the \<^verbatim>\<open>finally\<close> block (lines 66-68) clears both flags.
\<close>

definition catch_block :: "thrown \<Rightarrow> state \<Rightarrow> state" where
  "catch_block e s =
     s\<lparr>toasts := toasts s @ [Toast_error (case e of Error m \<Rightarrow> m | NonError \<Rightarrow> ''An error occurred'')]\<rparr>"

definition finally_block :: "state \<Rightarrow> state" where
  "finally_block s = s\<lparr>loading := False, analyzing := False\<rparr>"

text \<open>
  \<^verbatim>\<open>handleAnalyze\<close> (lines 25-70), as the state it leaves when it has run to its end.
  \<^verbatim>\<open>setPosts\<close> (line 34) comes before the scoring; \<^verbatim>\<open>setSentimentData\<close> (line 54) after it.
\<close>

definition handleAnalyze :: "env \<Rightarrow> state \<Rightarrow> state" where
  "handleAnalyze e s =
     (if trim (query s) = [] then s\<lparr>toasts := toasts s @ [Toast_error ''Please enter a search query'']\<rparr>
      else
        (case fetchTweets e (query s) of
           Inl err \<Rightarrow> finally_block (catch_block err (s\<lparr>loading := True\<rparr>))
         | Inr fetchedPosts \<Rightarrow>
             (let s1 = s\<lparr>loading := True, posts := fetchedPosts, analyzing := True\<rparr>
              in case Promise_all (settled_at e)
                        (map (\<lambda>i. analyzeSentiment e i (text_post (fetchedPosts ! i)))
                           [0..<length fetchedPosts]) of
                   Inl err \<Rightarrow> finally_block (catch_block err s1)
                 | Inr sentiments \<Rightarrow>
                     (case aggregate (format_distance e) (wall_clock e) fetchedPosts sentiments of
                        Inl err \<Rightarrow> finally_block (catch_block err s1)
                      | Inr d \<Rightarrow>
                          finally_block
                            (s1\<lparr>sentimentData := d,
                                toasts := toasts s1 @ [Toast_success ''Analysis complete!'']\<rparr>)))))"

text \<open>
  What the component renders below the search bar (lines 116-200): nothing unless there
  are posts and no request is running; else the aggregate with the label of its overall
  score, and the first five posts.
\<close>

record panel =
  panel_data :: aggregateResult
  panel_label :: string
  panel_posts :: "post list"

definition Dashboard_panel :: "state \<Rightarrow> panel option" where
  "Dashboard_panel s =
     (if length (posts s) > 0 \<and> \<not> loading s \<and> \<not> analyzing s
      then Some \<lparr>panel_data = sentimentData s,
                 panel_label = overallLabel (overallScore (sentimentData s)),
                 panel_posts = take 5 (posts s)\<rparr>
      else None)"

section \<open>Notions used to state the properties\<close>

text \<open>
  The distinct elements of a list in the order of their first occurrence, and the order
  in which \<^verbatim>\<open>Object.entries\<close> lists the keys that a stream of words creates: the array
  indices in ascending numeric order, then the other words by first occurrence.
\<close>

definition first_occ :: "'a list \<Rightarrow> 'a list" where
  "first_occ ws = rev (remdups (rev ws))"

definition key_order :: "string list \<Rightarrow> string list" where
  "key_order ws =
     sort_key digits_value (filter is_array_index (first_occ ws))
     @ filter (\<lambda>w. \<not> is_array_index w) (first_occ ws)"

text \<open>The object that holds, for each distinct word, the number of its occurrences.\<close>

definition tally :: "string list \<Rightarrow> obj" where
  "tally ws = map (\<lambda>w. (w, Num (count_list ws w))) (first_occ ws)"

definition is_Num :: "jsval \<Rightarrow> bool" where
  "is_Num v = (case v of Num n \<Rightarrow> True | _ \<Rightarrow> False)"

text \<open>
  What the counting loop stores: a number, or a string that begins like the text of a
  function or of an object, which is no numeral.
\<close>

definition stored_count :: "jsval \<Rightarrow> bool" where
  "stored_count v =
     (case v of
        Num n \<Rightarrow> True
      | Str s \<Rightarrow> s \<noteq> [] \<and> hd s \<in> {CHR ''f'', CHR ''[''}
      | _ \<Rightarrow> False)"

text \<open>The sort key of an entry with a numeric count: the count, negated.\<close>

definition neg_count :: "string \<times> jsval \<Rightarrow> int" where
  "neg_count e = (case snd e of Num n \<Rightarrow> - int n | _ \<Rightarrow> 0)"

definition is_upper :: "char \<Rightarrow> bool" where
  "is_upper c = (65 \<le> (of_char c :: int) \<and> (of_char c :: int) \<le> 90)"

text \<open>
  The texts in which no pooled word names a property that the counting object inherits.
  The words are lower-cased, so that \<^verbatim>\<open>constructor\<close> and \<^verbatim>\<open>__proto__\<close> are the only two
  such names (\<open>no_inherited_words\<close> below).
\<close>

definition no_inherited :: "string list \<Rightarrow> bool" where
  "no_inherited texts =
     (''constructor'' \<notin> set (words_of texts) \<and> ''__proto__'' \<notin> set (words_of texts))"

text \<open>
  \<^verbatim>\<open>formatDistance\<close> belongs to the library date-fns and is a parameter of the model.
  Where an example needs a concrete function, this one stands in: with the suffix
  option of line 43 it returns what date-fns returns for a base date that lies 0 to 89
  seconds after the date (instants in milliseconds).
\<close>

definition coarse_distance :: "int \<Rightarrow> int \<Rightarrow> string" where
  "coarse_distance date baseDate =
     (if baseDate - date < 30000 then ''less than a minute ago'' else ''1 minute ago'')"

text \<open>
  Two wall clocks that show the same instant at the first reading: one stands still, the
  other advances by a millisecond from one reading to the next.
\<close>

definition frozen_clock :: "nat \<Rightarrow> int" where
  "frozen_clock i = 29999"

definition ticking_clock :: "nat \<Rightarrow> int" where
  "ticking_clock i = 29999 + int i"

text \<open>Example data: two posts, their sentiments, and a world in which the second scoring fails.\<close>

definition two_posts :: "post list" where
  "two_posts = [\<lparr>id_post = ''1'', text_post = ''good day'', created_at = 0\<rparr>,
                \<lparr>id_post = ''2'', text_post = ''bad day'', created_at = 0\<rparr>]"

definition two_sentiments :: "sentiment list" where
  "two_sentiments = [\<lparr>score = Fin (1 / 2), confidence = Some (Fin (9 / 10))\<rparr>,
                     \<lparr>score = Fin (- (1 / 2)), confidence = None\<rparr>]"

text \<open>
  Three posts whose scores are the numbers -1, -0.1 and 0.2 of the language: the second
  and the third are the values of the format nearest to the decimal fractions.
\<close>

definition three_posts :: "post list" where
  "three_posts = [\<lparr>id_post = ''1'', text_post = ''bad day'', created_at = 0\<rparr>,
                  \<lparr>id_post = ''2'', text_post = ''grey day'', created_at = 0\<rparr>,
                  \<lparr>id_post = ''3'', text_post = ''fair day'', created_at = 0\<rparr>]"

definition three_sentiments :: "sentiment list" where
  "three_sentiments =
     [\<lparr>score = Fin (- 1), confidence = None\<rparr>,
      \<lparr>score = Fin (- (3602879701896397 / 36028797018963968)), confidence = None\<rparr>,
      \<lparr>score = Fin (3602879701896397 / 18014398509481984), confidence = None\<rparr>]"

definition failing_env :: env where
  "failing_env =
     \<lparr>fetchTweets = (\<lambda>q. Inr two_posts),
      analyzeSentiment = (\<lambda>i t. if i = 0 then Inr \<lparr>score = Fin (1 / 2), confidence = None\<rparr>
                                  else Inl (Error ''quota exceeded'')),
      settled_at = (\<lambda>i. i),
      wall_clock = frozen_clock,
      format_distance = coarse_distance\<rparr>"

section \<open>The threshold policy\<close>

lemma num_lt_not_gt: "num_lt s (Fin (- (3 / 10))) \<Longrightarrow> \<not> num_gt s (Fin (3 / 10))"
  by (cases s) (simp_all add: num_lt_def)

text \<open>
  Claim C2. The label shown for the overall score is positive exactly for a score above
  0.3, negative exactly for a score below -0.3 and neutral in every other case, and the
  pass that counts the distribution increments the counter of that same label. The two
  thresholds themselves are neutral; scores outside [-1, 1], the infinities and \<^verbatim>\<open>NaN\<close>
  go through the same comparisons, with no clamping and no error.
\<close>

theorem classify_thresholds:
  "(overallLabel s = ''Positive'' \<longleftrightarrow> num_gt s (Fin (3 / 10)))
   \<and> (overallLabel s = ''Negative'' \<longleftrightarrow> num_lt s (Fin (- (3 / 10))))
   \<and> (overallLabel s = ''Neutral'' \<longleftrightarrow> (\<not> num_gt s (Fin (3 / 10)) \<and> \<not> num_lt s (Fin (- (3 / 10)))))
   \<and> count_sentiment acc \<lparr>score = s, confidence = c\<rparr> =
       (if overallLabel s = ''Positive'' then acc\<lparr>positive := positive acc + 1\<rparr>
        else if overallLabel s = ''Negative'' then acc\<lparr>negative := negative acc + 1\<rparr>
        else acc\<lparr>neutral := neutral acc + 1\<rparr>)
   \<and> overallLabel (Fin (3 / 10)) = ''Neutral''
   \<and> overallLabel (Fin (- (3 / 10))) = ''Neutral''
   \<and> overallLabel (Fin 5) = ''Positive''
   \<and> overallLabel (Fin (- 5)) = ''Negative''
   \<and> overallLabel NaN = ''Neutral''"
  using num_lt_not_gt [of s]
  by (auto simp add: overallLabel_def count_sentiment_def num_lt_def)

section \<open>The aggregation: results and throws\<close>

lemma aggregate_Inr:
  "aggregate fd ck ps ss = Inr d \<Longrightarrow>
   sentimentOverTime_of fd ck ps ss = Inr (sentimentOverTime d)
   \<and> overallScore d = overallScore_of ss
   \<and> sentimentDistribution d = distribution_of ss
   \<and> confidenceScores d = confidenceScores_of ss
   \<and> topKeywords d = extractTopKeywords (map text_post ps)"
  by (auto simp add: aggregate_def split: sum.splits)

lemma aggregate_Inl:
  "aggregate fd ck ps ss = Inl e \<longleftrightarrow> sentimentOverTime_of fd ck ps ss = Inl e"
  by (auto simp add: aggregate_def split: sum.splits)

lemma map_throwing_all:
  "\<forall>a \<in> set xs. \<not> isl (f a) \<Longrightarrow> map_throwing f xs = Inr (map (\<lambda>a. projr (f a)) xs)"
proof (induction xs)
  case Nil
  then show ?case by simp
next
  case (Cons a xs)
  then obtain b where "f a = Inr b"
    by (cases "f a") auto
  with Cons show ?case by simp
qed

lemma map_throwing_InrD:
  "map_throwing f xs = Inr ys \<Longrightarrow> \<forall>a \<in> set xs. \<not> isl (f a)"
proof (induction xs arbitrary: ys)
  case Nil
  then show ?case by simp
next
  case (Cons a xs)
  from Cons.prems obtain b bs where "f a = Inr b" and "map_throwing f xs = Inr bs"
    by (auto split: sum.splits)
  with Cons.IH show ?case by simp
qed

lemma map_throwing_Inr:
  "map_throwing f xs = Inr ys \<longleftrightarrow> (\<forall>a \<in> set xs. \<not> isl (f a)) \<and> ys = map (\<lambda>a. projr (f a)) xs"
  using map_throwing_all [of xs f] map_throwing_InrD [of f xs ys] by auto

lemma map_throwing_Inl:
  "map_throwing f xs = Inl e \<Longrightarrow>
   (\<And>a. a \<in> set xs \<Longrightarrow> isl (g a) = isl (f a) \<and> (isl (f a) \<longrightarrow> g a = f a)) \<Longrightarrow>
   map_throwing g xs = Inl e"
proof (induction xs)
  case Nil
  then show ?case by simp
next
  case (Cons a xs)
  have a: "isl (g a) = isl (f a) \<and> (isl (f a) \<longrightarrow> g a = f a)"
    using Cons.prems(2) by simp
  show ?case
  proof (cases "f a")
    case (Inl e')
    then show ?thesis
      using Cons.prems(1) a by simp
  next
    case (Inr b)
    then obtain b' where g: "g a = Inr b'"
      using a by (cases "g a") auto
    from Cons.prems(1) Inr have "map_throwing f xs = Inl e"
      by (simp split: sum.splits)
    then have "map_throwing g xs = Inl e"
      using Cons.prems(2) by (intro Cons.IH) simp_all
    then show ?thesis
      by (simp add: g)
  qed
qed

lemma point_at_isl:
  "isl (point_at fd ck ps ss i) \<longleftrightarrow> \<not> (i < length ps \<and> new_Date (created_at (ps ! i)) \<noteq> None)"
  by (auto simp add: point_at_def formatDistance_call_def split: option.splits)

lemma point_at_clock:
  "isl (point_at fd ck ps ss i) \<Longrightarrow> point_at fd ck' ps ss i = point_at fd ck ps ss i"
  by (auto simp add: point_at_def formatDistance_call_def split: option.splits if_splits)

lemma point_at_Inr:
  "\<not> isl (point_at fd ck ps ss i) \<Longrightarrow>
   projr (point_at fd ck ps ss i) =
     \<lparr>x_point = fd (created_at (ps ! i)) (ck i), y_point = score (ss ! i)\<rparr>"
  by (auto simp add: point_at_def formatDistance_call_def new_Date_def split: option.splits if_splits)

lemma aggregate_returns:
  assumes "length ss \<le> length ps"
    and "list_all (\<lambda>p. new_Date (created_at p) \<noteq> None) (take (length ss) ps)"
  shows "\<exists>d. aggregate fd ck ps ss = Inr d"
proof -
  have "\<not> isl (point_at fd ck ps ss i)" if "i < length ss" for i
  proof -
    have i: "i < length ps"
      using that assms(1) by simp
    have "take (length ss) ps ! i = ps ! i"
      using that by simp
    moreover have "take (length ss) ps ! i \<in> set (take (length ss) ps)"
      using that i by (intro nth_mem) simp
    ultimately have "new_Date (created_at (ps ! i)) \<noteq> None"
      using assms(2) by (simp add: list_all_iff)
    then show ?thesis
      using i by (simp add: point_at_isl)
  qed
  then have "sentimentOverTime_of fd ck ps ss =
      Inr (map (\<lambda>i. projr (point_at fd ck ps ss i)) [0..<length ss])"
    by (simp add: sentimentOverTime_of_def map_throwing_all)
  then show ?thesis
    by (simp add: aggregate_def)
qed

section \<open>The overall score\<close>

text \<open>
  Rounding to the nearest value of the format: the numbers 0.1 and 0.2 of the language,
  a value of the format, and two ties, which go to the even significand.
\<close>

lemma round_double_examples:
  "round_double (1 / 10) = Fin (3602879701896397 / 36028797018963968)"
  "round_double (1 / 5) = Fin (3602879701896397 / 18014398509481984)"
  "round_double (- 3) = Fin (- 3)"
  "round_double (1 + 1 / 2 ^ 53) = Fin 1"
  "round_double (1 + 3 / 2 ^ 53) = Fin (1 + 1 / 2 ^ 51)"
  by code_simp+

text \<open>The parts of the rounding, and the error of one rounding away from overflow.\<close>

lemma round_half_even_error: "\<bar>of_int (round_half_even x) - x\<bar> \<le> (1 / 2 :: rat)"
proof -
  have "of_int \<lfloor>x\<rfloor> \<le> x" "x < of_int \<lfloor>x\<rfloor> + 1"
    by linarith+
  then show ?thesis
    by (auto simp add: round_half_even_def Let_def)
qed

lemma powi_nonneg_int: "0 \<le> k \<Longrightarrow> (2::rat) powi k = of_int (2 ^ nat k)"
  by (simp add: power_int_def)

lemma powi_neg_int: "0 \<le> k \<Longrightarrow> (2::rat) powi (- k) = 1 / of_int (2 ^ nat k)"
  by (cases "k = 0") (simp_all add: power_int_def field_simps)

lemma floor_log2_bounds:
  assumes "0 < a"
  shows "2 powi floor_log2 a \<le> a" and "a < 2 powi (floor_log2 a + 1)"
proof -
  have "2 powi floor_log2 a \<le> a \<and> a < 2 powi (floor_log2 a + 1)"
  proof (cases "1 \<le> a")
    case True
    define n where "n = \<lfloor>a\<rfloor>"
    have n: "0 < n" "of_int n \<le> a" "a < of_int n + 1"
      using True unfolding n_def by linarith+
    from bitlen_bounds [OF n(1)]
    have b: "2 ^ nat (bitlen n - 1) \<le> n" "n < 2 ^ nat (bitlen n)"
      by simp_all
    have k: "1 \<le> bitlen n"
      using n(1) by (simp add: bitlen_alt_def)
    have fl: "floor_log2 a = bitlen n - 1"
      using True by (simp add: floor_log2_def n_def)
    have "(2::rat) powi (bitlen n - 1) = of_int (2 ^ nat (bitlen n - 1))"
      using k by (intro powi_nonneg_int) simp
    also have "\<dots> \<le> of_int n"
      using b(1) by (simp only: of_int_le_iff)
    finally have lo: "2 powi (bitlen n - 1) \<le> a"
      using n(2) by simp
    have "n + 1 \<le> 2 ^ nat (bitlen n)"
      using b(2) by simp
    then have "(of_int (n + 1) :: rat) \<le> of_int (2 ^ nat (bitlen n))"
      by (simp only: of_int_le_iff)
    moreover have "(2::rat) powi (bitlen n) = of_int (2 ^ nat (bitlen n))"
      using k by (intro powi_nonneg_int) simp
    ultimately have hi: "a < 2 powi (bitlen n)"
      using n(3) by simp
    show ?thesis
      using lo hi by (simp add: fl)
  next
    case False
    define n where "n = \<lceil>1 / a\<rceil> - 1"
    have inv: "1 < 1 / a"
      using False assms by (simp add: field_simps)
    have n: "0 < n" "of_int n < 1 / a" "1 / a \<le> of_int n + 1"
      using inv unfolding n_def by linarith+
    from bitlen_bounds [OF n(1)]
    have b: "2 ^ nat (bitlen n - 1) \<le> n" "n < 2 ^ nat (bitlen n)"
      by simp_all
    have k: "1 \<le> bitlen n"
      using n(1) by (simp add: bitlen_alt_def)
    have fl: "floor_log2 a = - bitlen n"
      using False by (simp add: floor_log2_def n_def)
    have "n + 1 \<le> 2 ^ nat (bitlen n)"
      using b(2) by simp
    then have "(of_int (n + 1) :: rat) \<le> of_int (2 ^ nat (bitlen n))"
      by (simp only: of_int_le_iff)
    then have "1 / a \<le> of_int (2 ^ nat (bitlen n))"
      using n(3) by simp
    then have "1 / of_int (2 ^ nat (bitlen n)) \<le> a"
      using assms by (simp add: field_simps)
    moreover have "(2::rat) powi (- bitlen n) = 1 / of_int (2 ^ nat (bitlen n))"
      using k by (intro powi_neg_int) simp
    ultimately have lo: "2 powi (- bitlen n) \<le> a"
      by simp
    have "(of_int (2 ^ nat (bitlen n - 1)) :: rat) \<le> of_int n"
      using b(1) by (simp only: of_int_le_iff)
    then have "of_int (2 ^ nat (bitlen n - 1)) < 1 / a"
      using n(2) by (rule order_le_less_trans)
    then have "a < 1 / of_int (2 ^ nat (bitlen n - 1))"
      using assms by (simp add: field_simps)
    moreover have "(2::rat) powi (- (bitlen n - 1)) = 1 / of_int (2 ^ nat (bitlen n - 1))"
      using k by (intro powi_neg_int) simp
    ultimately have hi: "a < 2 powi (- bitlen n + 1)"
      by simp
    show ?thesis
      using lo hi by (simp add: fl)
  qed
  then show "2 powi floor_log2 a \<le> a" and "a < 2 powi (floor_log2 a + 1)"
    by simp_all
qed


lemma bitlen_le:
  assumes "0 \<le> m" and "m \<le> 2 ^ k"
  shows "bitlen m \<le> int k + 1"
proof (cases "m = 0")
  case True
  then show ?thesis by simp
next
  case False
  with assms have "0 < m" by simp
  from bitlen_bounds [OF this] have "2 ^ nat (bitlen m - 1) \<le> m"
    by simp
  from this assms(2) have "(2::int) ^ nat (bitlen m - 1) \<le> 2 ^ k"
    by (rule order_trans)
  then have "nat (bitlen m - 1) \<le> k"
    by (intro power_le_imp_le_exp [of "2::int"]) simp_all
  then show ?thesis
    by simp
qed

text \<open>The error of one rounding, away from overflow.\<close>

lemma round_double_error:
  assumes "\<bar>x\<bar> < 2 powi 1023"
  shows "\<exists>y. round_double x = Fin y \<and> \<bar>y - x\<bar> \<le> \<bar>x\<bar> * 2 powi (- 53) + 2 powi (- 1075)"
proof (cases "x = 0")
  case True
  then show ?thesis
    by (simp add: round_double_def)
next
  case False
  define a where "a = \<bar>x\<bar>"
  define e where "e = max (floor_log2 a - 52) (- 1074)"
  define m where "m = round_half_even (a / 2 powi e)"
  have a: "0 < a"
    using False by (simp add: a_def)
  have pe: "(0::rat) < 2 powi e"
    by simp
  from floor_log2_bounds [OF a]
  have lo: "2 powi floor_log2 a \<le> a" and hi: "a < 2 powi (floor_log2 a + 1)"
    by simp_all
  have fl: "floor_log2 a \<le> 1022"
  proof (rule ccontr)
    assume "\<not> floor_log2 a \<le> 1022"
    then have "(2::rat) powi 1023 \<le> 2 powi floor_log2 a"
      by (intro power_int_increasing) simp_all
    with lo assms show False
      by (simp add: a_def)
  qed
  have e_le: "e \<le> 970"
    using fl by (simp add: e_def)
  have e_ge: "floor_log2 a - 52 \<le> e"
    by (simp add: e_def)
  \<comment> \<open>the scaled value is below \<open>2\<^sup>5\<^sup>3\<close>\<close>
  have "a / 2 powi e < 2 powi (floor_log2 a + 1) / 2 powi e"
    using hi pe by (simp add: divide_strict_right_mono)
  also have "\<dots> = 2 powi (floor_log2 a + 1 - e)"
    by (simp add: power_int_diff)
  also have "\<dots> \<le> 2 powi 53"
    using e_ge by (intro power_int_increasing) simp_all
  finally have scaled: "a / 2 powi e < 2 powi 53" .
  have err: "\<bar>of_int m - a / 2 powi e\<bar> \<le> 1 / 2"
    unfolding m_def by (rule round_half_even_error)
  have m0: "0 \<le> m"
  proof -
    have "0 < a / 2 powi e"
      using a pe by simp
    with err have "- 1 < (of_int m :: rat)"
      by linarith
    then have "(of_int (- 1) :: rat) < of_int m"
      by simp
    then have "- 1 < m"
      by (simp only: of_int_less_iff)
    then show ?thesis by simp
  qed
  have m53: "m \<le> 2 ^ 53"
  proof -
    have "(of_int m :: rat) < 2 powi 53 + 1"
      using err scaled by linarith
    also have "(2::rat) powi 53 + 1 = of_int (2 ^ 53 + 1)"
      by simp
    finally have "m < 2 ^ 53 + 1"
      by (simp only: of_int_less_iff)
    then show ?thesis by simp
  qed
  have "bitlen m \<le> 54"
    using bitlen_le [OF m0 m53] by simp
  then have no_overflow: "\<not> 1024 < bitlen m + e"
    using e_le by simp
  define y :: rat where "y = (if 0 < x then of_int m * 2 powi e else - (of_int m * 2 powi e))"
  have rd: "round_double x = Fin y"
    using False no_overflow
    by (simp add: round_double_def Let_def a_def [symmetric] e_def [symmetric] m_def [symmetric] y_def)
  have "\<bar>of_int m * 2 powi e - a\<bar> = \<bar>of_int m - a / 2 powi e\<bar> * 2 powi e"
  proof -
    have "of_int m * 2 powi e - a = (of_int m - a / 2 powi e) * 2 powi e"
      using pe by (simp add: field_simps)
    then show ?thesis
      using pe by (simp add: abs_mult)
  qed
  also have "\<dots> \<le> 1 / 2 * 2 powi e"
    using err pe by (intro mult_right_mono) simp_all
  also have "\<dots> = 2 powi (e - 1)"
    by (simp add: power_int_diff)
  finally have step: "\<bar>of_int m * 2 powi e - a\<bar> \<le> 2 powi (e - 1)" .
  have quantum: "(2::rat) powi (e - 1) \<le> a * 2 powi (- 53) + 2 powi (- 1075)"
  proof (cases "e = - 1074")
    case True
    then show ?thesis
      using a by simp
  next
    case False
    then have "e = floor_log2 a - 52"
      by (simp add: e_def max_def split: if_splits)
    then have eq: "e - 1 = floor_log2 a + (- 53)"
      by simp
    have "(2::rat) powi (e - 1) = 2 powi floor_log2 a * 2 powi (- 53)"
      unfolding eq by (rule power_int_add) simp
    also have "\<dots> \<le> a * 2 powi (- 53)"
      using lo by (intro mult_right_mono) simp_all
    finally show ?thesis
      by simp
  qed
  have "\<bar>y - x\<bar> = \<bar>of_int m * 2 powi e - a\<bar>"
    using False by (auto simp add: y_def a_def)
  with step quantum have "\<bar>y - x\<bar> \<le> \<bar>x\<bar> * 2 powi (- 53) + 2 powi (- 1075)"
    by (simp add: a_def)
  with rd show ?thesis
    by blast
qed


lemma sum_step:
  fixes K u h a s q y :: rat
  assumes K: "0 \<le> K" and u: "0 < u" and h: "0 < h" and Ku: "K * u \<le> 1 / 4" and h8: "h \<le> 1 / 8"
    and E: "\<bar>a - s\<bar> \<le> K * K * u + 2 * K * h" and s: "\<bar>s\<bar> \<le> K" and q: "\<bar>q\<bar> \<le> 1"
    and y: "\<bar>y - (a + q)\<bar> \<le> \<bar>a + q\<bar> * u + h"
  shows "\<bar>y - (s + q)\<bar> \<le> (K + 1) * (K + 1) * u + 2 * (K + 1) * h"
    and "\<bar>a + q\<bar> \<le> 2 * K + 1"
proof -
  have "K * (K * u) \<le> K * (1 / 4)"
    using Ku K by (rule mult_left_mono)
  moreover have "K * h \<le> K * (1 / 8)"
    using h8 K by (rule mult_left_mono)
  ultimately have E2: "\<bar>a - s\<bar> \<le> K / 2"
    using E by (simp add: algebra_simps)
  have X: "\<bar>a + q\<bar> \<le> K + 1 + K / 2"
    using E2 s q by linarith
  then show "\<bar>a + q\<bar> \<le> 2 * K + 1"
    using K by linarith
  have "\<bar>a + q\<bar> * u \<le> (K + 1 + K / 2) * u"
    using X u by (intro mult_right_mono) simp_all
  then have "\<bar>a + q\<bar> * u \<le> K * u + u + K * u / 2"
    by (simp add: algebra_simps)
  moreover have "0 \<le> K * u"
    using K u by simp
  moreover have "\<bar>y - (s + q)\<bar> \<le> \<bar>y - (a + q)\<bar> + \<bar>a - s\<bar>"
    by linarith
  moreover have "(K + 1) * (K + 1) * u + 2 * (K + 1) * h
      = K * K * u + 2 * (K * u) + u + 2 * K * h + 2 * h"
    by (simp add: algebra_simps)
  ultimately show "\<bar>y - (s + q)\<bar> \<le> (K + 1) * (K + 1) * u + 2 * (K + 1) * h"
    using y E h by linarith
qed

lemma mean_step:
  fixes K u h a s y :: rat
  assumes K: "1 \<le> K" and u: "0 < u" and u1: "u \<le> 1" and h: "0 < h" and Ku: "K * u \<le> 1 / 4"
    and hu: "h \<le> u / 8"
    and E: "\<bar>a - s\<bar> \<le> K * K * u + 2 * K * h" and s: "\<bar>s\<bar> \<le> K"
    and y: "\<bar>y - a / K\<bar> \<le> \<bar>a / K\<bar> * u + h"
  shows "\<bar>y - s / K\<bar> \<le> (K + 2) * u" and "\<bar>a / K\<bar> \<le> 2"
proof -
  have K0: "0 < K"
    using K by simp
  have "\<bar>a / K - s / K\<bar> = \<bar>a - s\<bar> / K"
    using K0 by (simp add: diff_divide_distrib [symmetric])
  also have "\<dots> \<le> (K * K * u + 2 * K * h) / K"
    using E K0 by (simp add: divide_right_mono)
  also have "\<dots> = K * u + 2 * h"
    using K0 by (simp add: field_simps)
  finally have D: "\<bar>a / K - s / K\<bar> \<le> K * u + 2 * h" .
  have "\<bar>s / K\<bar> = \<bar>s\<bar> / K"
    using K0 by simp
  also have "\<dots> \<le> 1"
    using s K0 by (simp add: field_simps)
  finally have M: "\<bar>s / K\<bar> \<le> 1" .
  have X: "\<bar>a / K\<bar> \<le> 1 + K * u + 2 * h"
    using D M by linarith
  then show "\<bar>a / K\<bar> \<le> 2"
    using Ku hu u1 by linarith
  have "\<bar>a / K\<bar> * u \<le> (1 + K * u + 2 * h) * u"
    using X u by (intro mult_right_mono) simp_all
  then have XU: "\<bar>a / K\<bar> * u \<le> u + (K * u) * u + 2 * (h * u)"
    by (simp add: algebra_simps)
  have "(K * u) * u \<le> (1 / 4) * u"
    using Ku u by (intro mult_right_mono) simp_all
  moreover have "h * u \<le> h * 1"
    using u1 h by (intro mult_left_mono) simp_all
  moreover have "\<bar>y - s / K\<bar> \<le> \<bar>y - a / K\<bar> + \<bar>a / K - s / K\<bar>"
    by linarith
  moreover have "(K + 2) * u = K * u + 2 * u"
    by (simp add: algebra_simps)
  ultimately show "\<bar>y - s / K\<bar> \<le> (K + 2) * u"
    using y XU D hu u by linarith
qed

lemma abs_sum_list_le: "\<forall>q \<in> set qs. \<bar>q\<bar> \<le> (1::rat) \<Longrightarrow> \<bar>sum_list qs\<bar> \<le> of_nat (length qs)"
proof (induction qs)
  case Nil
  then show ?case by simp
next
  case (Cons q qs)
  then have "\<bar>sum_list qs\<bar> \<le> of_nat (length qs)" and "\<bar>q\<bar> \<le> 1"
    by simp_all
  then show ?case
    by simp
qed

lemma unit_facts:
  "(0::rat) < 2 powi (- 53)" "(2::rat) powi (- 53) \<le> 1" "(0::rat) < 2 powi (- 1075)"
  "(2::rat) powi (- 1075) \<le> 2 powi (- 53) / 8" "(2::rat) powi (- 1075) \<le> 1 / 8"
proof -
  show "(0::rat) < 2 powi (- 53)" "(0::rat) < 2 powi (- 1075)"
    by simp_all
  show "(2::rat) powi (- 53) \<le> 1"
    by (simp add: power_int_minus field_simps)
  have a: "(2::rat) powi (- 1075) \<le> 2 powi (- 56)"
    by (intro power_int_increasing) simp_all
  have b: "(2::rat) powi (- 56) = 2 powi (- 53) / 8"
    by (simp add: power_int_minus field_simps)
  show "(2::rat) powi (- 1075) \<le> 2 powi (- 53) / 8"
    using a b by simp
  have "(2::rat) powi (- 56) \<le> 1 / 8"
    by (simp add: power_int_minus field_simps)
  with a show "(2::rat) powi (- 1075) \<le> 1 / 8"
    by linarith
qed

lemma length_unit:
  assumes "n \<le> 2 ^ 32"
  shows "(of_nat n :: rat) * 2 powi (- 53) \<le> 1 / 4"
proof -
  have "(of_nat n :: rat) \<le> of_nat (2 ^ 32)"
    using assms by (simp only: of_nat_le_iff)
  then have "(of_nat n :: rat) * 2 powi (- 53) \<le> of_nat (2 ^ 32) * 2 powi (- 53)"
    by (intro mult_right_mono) simp_all
  also have "\<dots> \<le> 1 / 4"
    by (simp add: power_int_minus field_simps)
  finally show ?thesis .
qed

text \<open>The floating-point sum of scores in [-1, 1] and its distance from the exact sum.\<close>

lemma foldl_num_add_error:
  assumes "\<forall>q \<in> set qs. \<bar>q\<bar> \<le> 1" and "length qs \<le> 2 ^ 32"
  shows "\<exists>a. foldl num_add (Fin 0) (map Fin qs) = Fin a
           \<and> \<bar>a - sum_list qs\<bar> \<le> of_nat (length qs) * of_nat (length qs) * 2 powi (- 53)
                                     + 2 * of_nat (length qs) * 2 powi (- 1075)"
  using assms
proof (induction qs rule: rev_induct)
  case Nil
  then show ?case by simp
next
  case (snoc q qs)
  define K :: rat where "K = of_nat (length qs)"
  from snoc obtain a where a: "foldl num_add (Fin 0) (map Fin qs) = Fin a"
    and E: "\<bar>a - sum_list qs\<bar> \<le> K * K * 2 powi (- 53) + 2 * K * 2 powi (- 1075)"
    unfolding K_def by auto
  have K0: "0 \<le> K"
    by (simp add: K_def)
  have Ku: "K * 2 powi (- 53) \<le> 1 / 4"
    unfolding K_def using snoc.prems(2) by (intro length_unit) simp
  have s: "\<bar>sum_list qs\<bar> \<le> K"
    unfolding K_def using snoc.prems(1) by (intro abs_sum_list_le) simp
  have q: "\<bar>q\<bar> \<le> 1"
    using snoc.prems(1) by simp
  have K32: "K \<le> 2 ^ 32"
  proof -
    have "(of_nat (length qs) :: rat) \<le> of_nat (2 ^ 32)"
      using snoc.prems(2) by (simp only: of_nat_le_iff) simp
    then show ?thesis by (simp add: K_def)
  qed
  have small: "\<bar>a + q\<bar> < 2 powi 1023" if "\<bar>a + q\<bar> \<le> 2 * K + 1"
  proof -
    have "\<bar>a + q\<bar> < 2 powi 34"
      using that K32 by simp
    also have "(2::rat) powi 34 \<le> 2 powi 1023"
      by (intro power_int_increasing) simp_all
    finally show ?thesis .
  qed
  have X: "\<bar>a + q\<bar> \<le> 2 * K + 1"
  proof -
    have "K * (K * 2 powi (- 53)) \<le> K * (1 / 4)"
      using Ku K0 by (rule mult_left_mono)
    moreover have "K * 2 powi (- 1075) \<le> K * (1 / 8)"
      using unit_facts(5) K0 by (rule mult_left_mono)
    ultimately have "\<bar>a - sum_list qs\<bar> \<le> K / 2"
      using E by (simp add: algebra_simps)
    then show ?thesis
      using s q K0 by linarith
  qed
  from round_double_error [OF small [OF X]]
  obtain y where y: "round_double (a + q) = Fin y"
    and ye: "\<bar>y - (a + q)\<bar> \<le> \<bar>a + q\<bar> * 2 powi (- 53) + 2 powi (- 1075)"
    by blast
  have "\<bar>y - (sum_list qs + q)\<bar> \<le> (K + 1) * (K + 1) * 2 powi (- 53) + 2 * (K + 1) * 2 powi (- 1075)"
    using K0 unit_facts(1) unit_facts(3) Ku unit_facts(5) E s q ye by (rule sum_step(1))
  moreover have "foldl num_add (Fin 0) (map Fin (qs @ [q])) = Fin y"
    by (simp add: a y)
  moreover have "(of_nat (length (qs @ [q])) :: rat) = K + 1"
    by (simp add: K_def)
  ultimately show ?case
    by (simp only: sum_list_append sum_list.Cons sum_list.Nil add_0_right) blast
qed

lemma foldl_scores:
  "foldl (\<lambda>acc cur. num_add acc (score cur)) z ss = foldl num_add z (map score ss)"
  by (induction ss arbitrary: z) simp_all

lemma foldl_num_add_exact:
  "\<forall>k. 1 \<le> k \<and> k \<le> length qs \<longrightarrow>
     round_double (a + sum_list (take k qs)) = Fin (a + sum_list (take k qs)) \<Longrightarrow>
   foldl num_add (Fin a) (map Fin qs) = Fin (a + sum_list qs)"
proof (induction qs arbitrary: a)
  case Nil
  then show ?case by simp
next
  case (Cons q qs)
  have first: "round_double (a + q) = Fin (a + q)"
    using Cons.prems [rule_format, of 1] by simp
  have "round_double (a + q + sum_list (take k qs)) = Fin (a + q + sum_list (take k qs))"
    if "1 \<le> k \<and> k \<le> length qs" for k
    using Cons.prems [rule_format, of "Suc k"] that by (simp add: add.assoc)
  then have "foldl num_add (Fin (a + q)) (map Fin qs) = Fin (a + q + sum_list qs)"
    by (intro Cons.IH) blast
  then show ?case
    by (simp add: first add.assoc)
qed

text \<open>The overall score of scores in [-1, 1] and its distance from the exact mean.\<close>

lemma overallScore_of_error:
  assumes ne: "ss \<noteq> []" and fin: "map score ss = map Fin qs"
    and unit: "\<forall>q \<in> set qs. \<bar>q\<bar> \<le> 1" and len: "length qs \<le> 2 ^ 32"
  shows "\<exists>m. overallScore_of ss = Fin m
           \<and> \<bar>m - sum_list qs / of_nat (length qs)\<bar> \<le> (of_nat (length qs) + 2) * 2 powi (- 53)"
proof -
  define K :: rat where "K = of_nat (length qs)"
  have n: "length ss = length qs"
    using arg_cong [OF fin, of length] by simp
  have K1: "1 \<le> K"
  proof -
    have "1 \<le> length qs"
      using ne n by (cases ss) auto
    then have "(of_nat 1 :: rat) \<le> of_nat (length qs)"
      by (simp only: of_nat_le_iff)
    then show ?thesis by (simp add: K_def)
  qed
  from foldl_num_add_error [OF unit len]
  obtain a where a: "foldl num_add (Fin 0) (map Fin qs) = Fin a"
    and E: "\<bar>a - sum_list qs\<bar> \<le> K * K * 2 powi (- 53) + 2 * K * 2 powi (- 1075)"
    unfolding K_def by blast
  have Ku: "K * 2 powi (- 53) \<le> 1 / 4"
    unfolding K_def using len by (rule length_unit)
  have s: "\<bar>sum_list qs\<bar> \<le> K"
    unfolding K_def using unit by (rule abs_sum_list_le)
  have small: "\<bar>a / K\<bar> < 2 powi 1023"
  proof -
    have "K * (K * 2 powi (- 53)) \<le> K * (1 / 4)"
      using Ku K1 by (intro mult_left_mono) simp_all
    moreover have "K * 2 powi (- 1075) \<le> K * (1 / 8)"
      using unit_facts(5) K1 by (intro mult_left_mono) simp_all
    ultimately have "\<bar>a - sum_list qs\<bar> \<le> K / 2"
      using E by (simp add: algebra_simps)
    then have "\<bar>a\<bar> \<le> 2 * K"
      using s K1 by linarith
    then have "\<bar>a\<bar> / K \<le> 2"
      using K1 by (simp add: field_simps)
    then have "\<bar>a / K\<bar> < 2 powi 2"
      using K1 by simp
    also have "(2::rat) powi 2 \<le> 2 powi 1023"
      by (intro power_int_increasing) simp_all
    finally show ?thesis .
  qed
  from round_double_error [OF small]
  obtain y where y: "round_double (a / K) = Fin y"
    and ye: "\<bar>y - a / K\<bar> \<le> \<bar>a / K\<bar> * 2 powi (- 53) + 2 powi (- 1075)"
    by blast
  have "\<bar>y - sum_list qs / K\<bar> \<le> (K + 2) * 2 powi (- 53)"
    using K1 unit_facts(1) unit_facts(2) unit_facts(3) Ku unit_facts(4) E s ye
    by (rule mean_step(1))
  moreover have "qs \<noteq> []"
    using ne n by (cases qs) auto
  then have "overallScore_of ss = Fin y"
    by (simp add: overallScore_of_def foldl_scores fin a n y [unfolded K_def])
  ultimately show ?thesis
    unfolding K_def by blast
qed

lemma overallScore_of_exact:
  assumes ne: "ss \<noteq> []" and fin: "map score ss = map Fin qs"
    and sums: "\<forall>k. 1 \<le> k \<and> k \<le> length qs \<longrightarrow>
        round_double (sum_list (take k qs)) = Fin (sum_list (take k qs))"
    and quot: "round_double (sum_list qs / of_nat (length qs)) = Fin (sum_list qs / of_nat (length qs))"
  shows "overallScore_of ss = Fin (sum_list qs / of_nat (length qs))"
proof -
  have n: "length ss = length qs"
    using arg_cong [OF fin, of length] by simp
  have "foldl num_add (Fin 0) (map Fin qs) = Fin (0 + sum_list qs)"
    using sums by (intro foldl_num_add_exact) simp
  moreover have "qs \<noteq> []"
    using ne n by (cases qs) auto
  ultimately show ?thesis
    by (simp add: overallScore_of_def foldl_scores fin n quot)
qed

text \<open>
  Claim C3, as it stands, fails: the overall score is computed in floating point and is
  not the arithmetic mean. For the scores -1, -0.1 and 0.2 the sum is rounded twice and
  the quotient once; the result lies below -0.3 and is labelled negative, while the mean
  of the three scores lies above -0.3.
\<close>

theorem rounding_counterexample:
  "(\<exists>d. aggregate coarse_distance frozen_clock three_posts three_sentiments = Inr d
        \<and> overallScore d = Fin (- (1351079888211149 / 4503599627370496))
        \<and> overallLabel (overallScore d) = ''Negative'')
   \<and> sum_list [- 1, - (3602879701896397 / 36028797018963968), 3602879701896397 / 18014398509481984]
         / of_nat (length three_sentiments)
       = (- (32425917317067571 / 108086391056891904) :: rat)
   \<and> - (1351079888211149 / 4503599627370496) \<noteq> (- (32425917317067571 / 108086391056891904) :: rat)
   \<and> overallLabel (Fin (- (32425917317067571 / 108086391056891904))) = ''Neutral''"
proof -
  have "length three_sentiments \<le> length three_posts"
    by (simp add: three_sentiments_def three_posts_def)
  moreover have "list_all (\<lambda>p. new_Date (created_at p) \<noteq> None)
      (take (length three_sentiments) three_posts)"
    by (simp add: three_sentiments_def three_posts_def new_Date_def)
  ultimately obtain d where d: "aggregate coarse_distance frozen_clock three_posts three_sentiments = Inr d"
    using aggregate_returns by blast
  have os: "overallScore_of three_sentiments = Fin (- (1351079888211149 / 4503599627370496))"
    by code_simp
  have lab: "overallLabel (Fin (- (1351079888211149 / 4503599627370496))) = ''Negative''"
    by code_simp
  have "overallScore d = Fin (- (1351079888211149 / 4503599627370496))"
    using aggregate_Inr [OF d] os by simp
  with d lab have first: "\<exists>d. aggregate coarse_distance frozen_clock three_posts three_sentiments = Inr d
        \<and> overallScore d = Fin (- (1351079888211149 / 4503599627370496))
        \<and> overallLabel (overallScore d) = ''Negative''"
    by auto
  have second: "sum_list [- 1, - (3602879701896397 / 36028797018963968), 3602879701896397 / 18014398509481984]
         / of_nat (length three_sentiments)
       = (- (32425917317067571 / 108086391056891904) :: rat)"
    by code_simp
  have third: "- (1351079888211149 / 4503599627370496) \<noteq> (- (32425917317067571 / 108086391056891904) :: rat)"
    by code_simp
  have fourth: "overallLabel (Fin (- (32425917317067571 / 108086391056891904))) = ''Neutral''"
    by code_simp
  from first second third fourth show ?thesis
    by blast
qed

text \<open>
  Claim C3, amended. When the aggregation returns a result for a non-empty list of
  sentiments with the finite scores \<open>qs\<close>, its overall score is the mean of \<open>qs\<close> computed
  in floating point: the scores are added from the left, starting at 0, and the sum is
  divided by the length, every operation rounded to the nearest value of the format.
  For scores in [-1, 1] (an array has fewer than \<open>2\<^sup>3\<^sup>2\<close> elements) the overall score is
  finite and differs from the arithmetic mean by at most \<open>(n + 2) / 2\<^sup>5\<^sup>3\<close> for \<open>n\<close> scores.
  It is the arithmetic mean itself whenever the sums of the first \<open>k\<close> scores and the
  mean are values of the format. For the empty list the division by the length 0 is not
  guarded: the aggregation returns a result, whose overall score is \<^verbatim>\<open>NaN\<close>. For the one
  post "good day" with the score 0.5 and the confidence 0.9 the overall score is 0.5,
  unless the date of the post is invalid, when the aggregation throws.
\<close>

theorem overallScore_rounded_mean:
  "(aggregate fd ck ps ss = Inr d \<and> ss \<noteq> [] \<and> map score ss = map Fin qs \<longrightarrow>
      (list_all (\<lambda>q. \<bar>q\<bar> \<le> 1) qs \<and> length qs \<le> 2 ^ 32 \<longrightarrow>
         (\<exists>m. overallScore d = Fin m
            \<and> \<bar>m - sum_list qs / of_nat (length qs)\<bar> \<le> (of_nat (length qs) + 2) * 2 powi (- 53)))
      \<and> ((\<forall>k. 1 \<le> k \<and> k \<le> length qs \<longrightarrow>
              round_double (sum_list (take k qs)) = Fin (sum_list (take k qs)))
          \<and> round_double (sum_list qs / of_nat (length qs)) = Fin (sum_list qs / of_nat (length qs))
          \<longrightarrow> overallScore d = Fin (sum_list qs / of_nat (length qs))))
   \<and> (\<exists>d. aggregate fd ck ps [] = Inr d \<and> overallScore d = NaN)
   \<and> (case aggregate fd ck [\<lparr>id_post = ''1'', text_post = ''good day'', created_at = T\<rparr>]
              [\<lparr>score = Fin (1 / 2), confidence = Some (Fin (9 / 10))\<rparr>] of
         Inl e \<Rightarrow> new_Date T = None \<and> e = Error ''Invalid time value''
       | Inr d \<Rightarrow> new_Date T \<noteq> None \<and> overallScore d = Fin (1 / 2))"
proof (intro conjI impI)
  assume h: "aggregate fd ck ps ss = Inr d \<and> ss \<noteq> [] \<and> map score ss = map Fin qs"
  then have os: "overallScore d = overallScore_of ss"
    using aggregate_Inr by blast
  {
    assume "list_all (\<lambda>q. \<bar>q\<bar> \<le> 1) qs \<and> length qs \<le> 2 ^ 32"
    then have "\<forall>q \<in> set qs. \<bar>q\<bar> \<le> 1" and "length qs \<le> 2 ^ 32"
      by (simp_all add: list_all_iff)
    with h show "\<exists>m. overallScore d = Fin m
            \<and> \<bar>m - sum_list qs / of_nat (length qs)\<bar> \<le> (of_nat (length qs) + 2) * 2 powi (- 53)"
      unfolding os by (intro overallScore_of_error) simp_all
  }
  {
    assume "(\<forall>k. 1 \<le> k \<and> k \<le> length qs \<longrightarrow>
              round_double (sum_list (take k qs)) = Fin (sum_list (take k qs)))
          \<and> round_double (sum_list qs / of_nat (length qs)) = Fin (sum_list qs / of_nat (length qs))"
    with h show "overallScore d = Fin (sum_list qs / of_nat (length qs))"
      unfolding os by (intro overallScore_of_exact) simp_all
  }
next
  show "\<exists>d. aggregate fd ck ps [] = Inr d \<and> overallScore d = NaN"
    by (simp add: aggregate_def sentimentOverTime_of_def overallScore_of_def)
next
  have half: "round_double (1 / 2) = Fin (1 / 2)"
    by code_simp
  have "overallScore_of [\<lparr>score = Fin (1 / 2), confidence = Some (Fin (9 / 10))\<rparr>] = Fin (1 / 2)"
    by (simp add: overallScore_of_def half)
  then show "case aggregate fd ck [\<lparr>id_post = ''1'', text_post = ''good day'', created_at = T\<rparr>]
              [\<lparr>score = Fin (1 / 2), confidence = Some (Fin (9 / 10))\<rparr>] of
         Inl e \<Rightarrow> new_Date T = None \<and> e = Error ''Invalid time value''
       | Inr d \<Rightarrow> new_Date T \<noteq> None \<and> overallScore d = Fin (1 / 2)"
    by (cases "new_Date T")
       (simp_all add: aggregate_def sentimentOverTime_of_def point_at_def formatDistance_call_def)
qed

theorem overallScore_rounded_mean_witness:
  "two_sentiments \<noteq> [] \<and> map score two_sentiments = map Fin [1 / 2, - (1 / 2)]
   \<and> list_all (\<lambda>q. \<bar>q\<bar> \<le> 1) [1 / 2, - (1 / 2 :: rat)]
   \<and> (\<exists>d m. aggregate coarse_distance frozen_clock two_posts two_sentiments = Inr d
          \<and> overallScore d = Fin m
          \<and> \<bar>m - sum_list [1 / 2, - (1 / 2)] / of_nat (length [1 / 2, - (1 / 2 :: rat)])\<bar>
              \<le> (of_nat (length [1 / 2, - (1 / 2 :: rat)]) + 2) * 2 powi (- 53))"
proof -
  have h1: "two_sentiments \<noteq> []" "map score two_sentiments = map Fin [1 / 2, - (1 / 2)]"
    by (simp_all add: two_sentiments_def)
  have h2: "list_all (\<lambda>q. \<bar>q\<bar> \<le> 1) [1 / 2, - (1 / 2 :: rat)]"
    "length [1 / 2, - (1 / 2 :: rat)] \<le> 2 ^ 32"
    by simp_all
  have "length two_sentiments \<le> length two_posts"
    by (simp add: two_sentiments_def two_posts_def)
  moreover have "list_all (\<lambda>p. new_Date (created_at p) \<noteq> None)
      (take (length two_sentiments) two_posts)"
    by (simp add: two_sentiments_def two_posts_def new_Date_def)
  ultimately obtain d where d: "aggregate coarse_distance frozen_clock two_posts two_sentiments = Inr d"
    using aggregate_returns by blast
  from overallScore_rounded_mean [of coarse_distance frozen_clock two_posts two_sentiments d
      "[1 / 2, - (1 / 2)]"] d h1 h2
  obtain m where "overallScore d = Fin m"
    and "\<bar>m - sum_list [1 / 2, - (1 / 2)] / of_nat (length [1 / 2, - (1 / 2 :: rat)])\<bar>
              \<le> (of_nat (length [1 / 2, - (1 / 2 :: rat)]) + 2) * 2 powi (- 53)"
    by blast
  with d h1 h2(1) show ?thesis
    by blast
qed

section \<open>The distribution\<close>

lemma count_sentiment_fields:
  "positive (count_sentiment acc s) =
     positive acc + (if num_gt (score s) (Fin (3 / 10)) then 1 else 0)"
  "negative (count_sentiment acc s) =
     negative acc + (if num_lt (score s) (Fin (- (3 / 10))) then 1 else 0)"
  "neutral (count_sentiment acc s) =
     neutral acc + (if \<not> num_gt (score s) (Fin (3 / 10)) \<and> \<not> num_lt (score s) (Fin (- (3 / 10)))
                    then 1 else 0)"
  using num_lt_not_gt [of "score s"] by (auto simp add: count_sentiment_def)

lemma foldl_count_sentiment:
  "positive (foldl count_sentiment acc ss) =
     positive acc + length (filter (\<lambda>s. num_gt (score s) (Fin (3 / 10))) ss)"
  "negative (foldl count_sentiment acc ss) =
     negative acc + length (filter (\<lambda>s. num_lt (score s) (Fin (- (3 / 10)))) ss)"
  "neutral (foldl count_sentiment acc ss) =
     neutral acc + length (filter (\<lambda>s. \<not> num_gt (score s) (Fin (3 / 10))
                                       \<and> \<not> num_lt (score s) (Fin (- (3 / 10)))) ss)"
  by (induction ss arbitrary: acc) (simp_all add: count_sentiment_fields)

lemma foldl_count_total:
  "positive (foldl count_sentiment acc ss) + neutral (foldl count_sentiment acc ss)
     + negative (foldl count_sentiment acc ss)
   = positive acc + neutral acc + negative acc + length ss"
proof (induction ss arbitrary: acc)
  case Nil
  then show ?case by simp
next
  case (Cons s ss)
  have "positive (count_sentiment acc s) + neutral (count_sentiment acc s)
          + negative (count_sentiment acc s) = positive acc + neutral acc + negative acc + 1"
    using num_lt_not_gt [of "score s"] by (simp add: count_sentiment_fields)
  then show ?case
    by (simp add: Cons.IH)
qed

text \<open>
  Claim C4. Whenever the aggregation returns a result, the three counters of its
  distribution add up to the number of sentiments, and each counter is the number of
  sentiments on its side of the thresholds: every sentiment is counted once, in one
  bucket. The same holds of the counting pass on its own, for every list of sentiments.
\<close>

theorem distribution_partition:
  "(aggregate fd ck ps ss = Inr d \<longrightarrow>
      positive (sentimentDistribution d) + neutral (sentimentDistribution d)
        + negative (sentimentDistribution d) = length ss
      \<and> positive (sentimentDistribution d) =
          length (filter (\<lambda>s. num_gt (score s) (Fin (3 / 10))) ss)
      \<and> negative (sentimentDistribution d) =
          length (filter (\<lambda>s. num_lt (score s) (Fin (- (3 / 10)))) ss)
      \<and> neutral (sentimentDistribution d) =
          length (filter (\<lambda>s. \<not> num_gt (score s) (Fin (3 / 10))
                            \<and> \<not> num_lt (score s) (Fin (- (3 / 10)))) ss))
   \<and> positive (distribution_of ss) + neutral (distribution_of ss) + negative (distribution_of ss)
     = length ss
   \<and> positive (distribution_of ss) = length (filter (\<lambda>s. num_gt (score s) (Fin (3 / 10))) ss)
   \<and> negative (distribution_of ss) = length (filter (\<lambda>s. num_lt (score s) (Fin (- (3 / 10)))) ss)
   \<and> neutral (distribution_of ss) =
       length (filter (\<lambda>s. \<not> num_gt (score s) (Fin (3 / 10))
                         \<and> \<not> num_lt (score s) (Fin (- (3 / 10)))) ss)"
proof -
  have parts: "positive (distribution_of ss) + neutral (distribution_of ss) + negative (distribution_of ss)
     = length ss
   \<and> positive (distribution_of ss) = length (filter (\<lambda>s. num_gt (score s) (Fin (3 / 10))) ss)
   \<and> negative (distribution_of ss) = length (filter (\<lambda>s. num_lt (score s) (Fin (- (3 / 10)))) ss)
   \<and> neutral (distribution_of ss) =
       length (filter (\<lambda>s. \<not> num_gt (score s) (Fin (3 / 10))
                         \<and> \<not> num_lt (score s) (Fin (- (3 / 10)))) ss)"
    using foldl_count_total [of "\<lparr>positive = 0, neutral = 0, negative = 0\<rparr>" ss]
      foldl_count_sentiment [of "\<lparr>positive = 0, neutral = 0, negative = 0\<rparr>" ss]
    by (simp add: distribution_of_def)
  moreover have "sentimentDistribution d = distribution_of ss" if "aggregate fd ck ps ss = Inr d"
    using aggregate_Inr [OF that] by simp
  ultimately show ?thesis
    by simp
qed

theorem distribution_partition_witness:
  "\<exists>d. aggregate coarse_distance frozen_clock two_posts two_sentiments = Inr d
      \<and> positive (sentimentDistribution d) + neutral (sentimentDistribution d)
          + negative (sentimentDistribution d) = length two_sentiments
      \<and> sentimentDistribution d = \<lparr>positive = 1, neutral = 0, negative = 1\<rparr>"
proof -
  have "length two_sentiments \<le> length two_posts"
    by (simp add: two_sentiments_def two_posts_def)
  moreover have "list_all (\<lambda>p. new_Date (created_at p) \<noteq> None)
      (take (length two_sentiments) two_posts)"
    by (simp add: two_sentiments_def two_posts_def new_Date_def)
  ultimately obtain d where d: "aggregate coarse_distance frozen_clock two_posts two_sentiments = Inr d"
    using aggregate_returns by blast
  from distribution_partition [of coarse_distance frozen_clock two_posts two_sentiments d] d
  have "positive (sentimentDistribution d) + neutral (sentimentDistribution d)
          + negative (sentimentDistribution d) = length two_sentiments"
    and "positive (sentimentDistribution d) =
          length (filter (\<lambda>s. num_gt (score s) (Fin (3 / 10))) two_sentiments)"
    and "negative (sentimentDistribution d) =
          length (filter (\<lambda>s. num_lt (score s) (Fin (- (3 / 10)))) two_sentiments)"
    by blast+
  moreover have "length (filter (\<lambda>s. num_gt (score s) (Fin (3 / 10))) two_sentiments) = 1"
    "length (filter (\<lambda>s. num_lt (score s) (Fin (- (3 / 10)))) two_sentiments) = 1"
    by (simp_all add: two_sentiments_def num_lt_def)
  ultimately have "positive (sentimentDistribution d) = 1" "negative (sentimentDistribution d) = 1"
    "neutral (sentimentDistribution d) = 0"
    "positive (sentimentDistribution d) + neutral (sentimentDistribution d)
          + negative (sentimentDistribution d) = length two_sentiments"
    by (simp_all add: two_sentiments_def)
  then have "sentimentDistribution d = \<lparr>positive = 1, neutral = 0, negative = 1\<rparr>"
    and "positive (sentimentDistribution d) + neutral (sentimentDistribution d)
          + negative (sentimentDistribution d) = length two_sentiments"
    by simp_all
  with d show ?thesis
    by blast
qed

section \<open>The confidence scores\<close>

lemma confidenceScores_of_nth:
  "i < length sentiments \<Longrightarrow>
   confidenceScores_of sentiments ! i =
     (case confidence (sentiments ! i) of
        None \<Rightarrow> Fin 1
      | Some c \<Rightarrow> if c = Fin 0 \<or> c = NaN then Fin 1 else c)"
  by (cases "confidence (sentiments ! i)" rule: or_one.cases)
     (simp_all add: confidenceScores_of_def)

text \<open>
  Claim C5. The confidence of a sentiment is taken over when it is present, and 1 stands
  in when it is absent. The code departs from that for a confidence that is present with
  the value 0: the operator \<^verbatim>\<open>||\<close> takes 0 for absent, and the confidence score is 1.
\<close>

theorem confidence_zero_becomes_one:
  "confidenceScores_of [\<lparr>score = Fin (1 / 2), confidence = Some (Fin 0)\<rparr>] = [Fin 1]"
  by (simp add: confidenceScores_of_def)

section \<open>Keyword extraction: the words and their counts\<close>

lemma lower_char_not_upper: "\<not> is_upper (lower_char c)"
  by (auto simp add: is_upper_def lower_char_def Let_def)

lemma split_ws_subset: "w \<in> set (split_ws s) \<Longrightarrow> set w \<subseteq> set s"
proof (induction s arbitrary: w rule: split_ws.induct)
  case (1 s)
  show ?case
  proof (cases "dropWhile (\<lambda>c. \<not> is_space c) s")
    case Nil
    with "1.prems" show ?thesis
      by (simp add: split_ws.simps [of s])
  next
    case (Cons sep rest)
    have rest: "set (dropWhile is_space rest) \<subseteq> set s"
    proof -
      have "set (dropWhile is_space rest) \<subseteq> set rest"
        by (auto dest: set_dropWhileD)
      also have "\<dots> \<subseteq> set (dropWhile (\<lambda>c. \<not> is_space c) s)"
        by (auto simp add: Cons)
      also have "\<dots> \<subseteq> set s"
        by (auto dest: set_dropWhileD)
      finally show ?thesis .
    qed
    from "1.prems" Cons
    consider "w = takeWhile (\<lambda>c. \<not> is_space c) s" | "w \<in> set (split_ws (dropWhile is_space rest))"
      by (auto simp add: split_ws.simps [of s])
    then show ?thesis
    proof cases
      case 1
      then show ?thesis by (auto dest: set_takeWhileD)
    next
      case 2
      from "1.IH" [OF Cons 2] rest show ?thesis by blast
    qed
  qed
qed

lemma words_of_lower: "w \<in> set (words_of texts) \<Longrightarrow> c \<in> set w \<Longrightarrow> \<not> is_upper c"
proof -
  assume w: "w \<in> set (words_of texts)" and c: "c \<in> set w"
  from w obtain t where "w \<in> set (split_ws (toLowerCase t))"
    by (auto simp add: words_of_def)
  then have "set w \<subseteq> set (toLowerCase t)"
    by (rule split_ws_subset)
  with c obtain d where "c = lower_char d"
    by (auto simp add: toLowerCase_def)
  then show ?thesis
    by (simp add: lower_char_not_upper)
qed

lemma Object_prototype_lower:
  assumes "\<And>c. c \<in> set w \<Longrightarrow> \<not> is_upper c"
    and "w \<noteq> ''constructor''" and "w \<noteq> ''__proto__''"
  shows "Object_prototype w = None"
proof -
  have "w \<notin> {''__defineGetter__'', ''__defineSetter__'', ''hasOwnProperty'',
                     ''__lookupGetter__'', ''__lookupSetter__'', ''isPrototypeOf'',
                     ''propertyIsEnumerable'', ''toString'', ''valueOf'', ''toLocaleString''}"
  proof
    assume "w \<in> {''__defineGetter__'', ''__defineSetter__'', ''hasOwnProperty'',
                     ''__lookupGetter__'', ''__lookupSetter__'', ''isPrototypeOf'',
                     ''propertyIsEnumerable'', ''toString'', ''valueOf'', ''toLocaleString''}"
    then have "\<exists>c \<in> set w. is_upper c"
      by (auto simp add: is_upper_def)
    with assms(1) show False by blast
  qed
  with assms(2,3) show ?thesis
    by (simp add: Object_prototype_def)
qed

lemma no_inherited_words:
  assumes "no_inherited texts" and "w \<in> set (words_of texts)"
  shows "Object_prototype w = None"
proof (rule Object_prototype_lower)
  show "\<not> is_upper c" if "c \<in> set w" for c
    using words_of_lower [OF assms(2) that] .
  show "w \<noteq> ''constructor''" "w \<noteq> ''__proto__''"
    using assms by (auto simp add: no_inherited_def)
qed

lemma first_occ_snoc:
  "first_occ (ws @ [w]) = (if w \<in> set ws then first_occ ws else first_occ ws @ [w])"
  by (simp add: first_occ_def)

lemma set_first_occ: "set (first_occ ws) = set ws"
  by (simp add: first_occ_def)

lemma distinct_first_occ: "distinct (first_occ ws)"
  by (simp add: first_occ_def)

lemma map_of_tabulate:
  "map_of (map (\<lambda>k. (k, f k)) ks) w = (if w \<in> set ks then Some (f w) else None)"
  by (induction ks) auto

lemma set_own_tabulate:
  "distinct ks \<Longrightarrow>
   set_own (map (\<lambda>k. (k, f k)) ks) w v =
     (if w \<in> set ks then map (\<lambda>k. (k, if k = w then v else f k)) ks
      else map (\<lambda>k. (k, f k)) ks @ [(w, v)])"
  by (induction ks) auto

lemma count_list_snoc:
  "count_list (ws @ [w]) k = count_list ws k + (if k = w then 1 else 0)"
  by (induction ws) auto

lemma count_list_0: "w \<notin> set ws \<Longrightarrow> count_list ws w = 0"
  by (induction ws) auto

text \<open>One step of the counting loop, on a word that names no inherited property.\<close>

lemma bump_tally:
  assumes w: "Object_prototype w = None"
  shows "bump (tally ws) w = tally (ws @ [w])"
proof -
  have proto: "w \<noteq> ''__proto__''"
    using w by (auto simp add: Object_prototype_def)
  show ?thesis
  proof (cases "w \<in> set ws")
    case True
    then have "get_prop (tally ws) w = Num (count_list ws w)"
      by (simp add: get_prop_def tally_def map_of_tabulate set_first_occ)
    then have "bump (tally ws) w =
        map (\<lambda>k. (k, if k = w then Num (count_list ws w + 1) else Num (count_list ws k))) (first_occ ws)"
      using True proto
      by (simp add: bump_def set_prop_def tally_def set_own_tabulate distinct_first_occ set_first_occ)
    also have "\<dots> = tally (ws @ [w])"
      using True by (auto simp add: tally_def first_occ_snoc count_list_snoc)
    finally show ?thesis .
  next
    case False
    then have "get_prop (tally ws) w = Undefined"
      using w by (simp add: get_prop_def tally_def map_of_tabulate set_first_occ)
    then have "bump (tally ws) w = tally ws @ [(w, Num 1)]"
      using False proto
      by (simp add: bump_def set_prop_def tally_def set_own_tabulate distinct_first_occ set_first_occ)
    also have "\<dots> = tally (ws @ [w])"
      using False by (auto simp add: tally_def first_occ_snoc count_list_snoc count_list_0 set_first_occ)
    finally show ?thesis .
  qed
qed

lemma wordCounts_tally:
  "(\<And>w. w \<in> set ws \<Longrightarrow> Object_prototype w = None) \<Longrightarrow> wordCounts ws = tally ws"
proof (induction ws rule: rev_induct)
  case Nil
  then show ?case by (simp add: wordCounts_def tally_def first_occ_def)
next
  case (snoc w ws)
  then have "wordCounts ws = tally ws" and "Object_prototype w = None"
    by simp_all
  then show ?case
    using bump_tally [of w ws] by (simp add: wordCounts_def)
qed

text \<open>
  On any words at all, the loop stores numbers and non-numeric strings only, which is what
  \<open>to_number\<close> relies on.
\<close>

lemma Object_prototype_text:
  "Object_prototype k = Some t \<Longrightarrow> t \<noteq> [] \<and> hd t \<in> {CHR ''f'', CHR ''[''}"
proof -
  assume k: "Object_prototype k = Some t"
  consider "t = ''[object Object]''" | "t = ''function Object() { [native code] }''"
    | "t = ''function '' @ k @ ''() { [native code] }''"
    using k unfolding Object_prototype_def by (metis option.distinct(1) option.inject)
  then show ?thesis
    by cases simp_all
qed

lemma set_set_own: "set (set_own acc k v) \<subseteq> insert (k, v) (set acc)"
  by (induction acc) (auto split: if_splits)

lemma bump_stored_count:
  assumes "\<forall>e \<in> set acc. stored_count (snd e)"
  shows "\<forall>e \<in> set (bump acc w). stored_count (snd e)"
proof -
  have "stored_count (or_zero_plus_one (get_prop acc w))"
  proof (cases "map_of acc w")
    case None
    then show ?thesis
      by (cases "Object_prototype w")
         (auto simp add: get_prop_def stored_count_def dest: Object_prototype_text)
  next
    case (Some v)
    then have "(w, v) \<in> set acc"
      by (rule map_of_SomeD)
    with assms have "stored_count v"
      by auto
    then show ?thesis
      using Some by (cases v) (auto simp add: get_prop_def stored_count_def)
  qed
  then show ?thesis
    using assms set_set_own [of acc w "or_zero_plus_one (get_prop acc w)"]
    by (auto simp add: bump_def set_prop_def)
qed

lemma wordCounts_stored_count:
  "e \<in> set (wordCounts ws) \<Longrightarrow> stored_count (snd e)"
proof -
  have "\<forall>e \<in> set (foldl bump acc ws). stored_count (snd e)"
    if "\<forall>e \<in> set acc. stored_count (snd e)" for acc
    using that
  proof (induction ws arbitrary: acc)
    case Nil
    then show ?case by simp
  next
    case (Cons w ws)
    show ?case
      using Cons.IH [OF bump_stored_count [OF Cons.prems]] by simp
  qed
  from this [of "[]"] show "e \<in> set (wordCounts ws) \<Longrightarrow> stored_count (snd e)"
    by (simp add: wordCounts_def)
qed

section \<open>Keyword extraction: the ranking\<close>

lemma insort_cmp_Num:
  "is_Num (snd a) \<Longrightarrow> list_all (\<lambda>b. is_Num (snd b)) bs \<Longrightarrow>
   insort_cmp (SortCompare compare_counts) a bs = insort_key neg_count a bs"
  by (induction bs)
     (auto simp add: is_Num_def neg_count_def SortCompare_def compare_counts_def split: jsval.splits)

lemma Array_sort_Num:
  "list_all (\<lambda>b. is_Num (snd b)) xs \<Longrightarrow> Array_sort compare_counts xs = sort_key neg_count xs"
proof (induction xs)
  case Nil
  then show ?case by (simp add: Array_sort_def)
next
  case (Cons a xs)
  then have IH: "Array_sort compare_counts xs = sort_key neg_count xs"
    and a: "is_Num (snd a)" and xs: "list_all (\<lambda>b. is_Num (snd b)) xs"
    by simp_all
  have "list_all (\<lambda>b. is_Num (snd b)) (sort_key neg_count xs)"
    using xs by (simp add: list_all_iff)
  then show ?case
    using IH a by (simp add: Array_sort_def sort_key_def insort_cmp_Num)
qed

lemma sort_key_tabulate:
  "sort_key (\<lambda>e. g (fst e)) (map (\<lambda>k. (k, f k)) ks) = map (\<lambda>k. (k, f k)) (sort_key g ks)"
proof (induction ks)
  case Nil
  then show ?case by simp
next
  case (Cons k ks)
  have ins: "insort_key (\<lambda>e. g (fst e)) (k, f k) (map (\<lambda>k. (k, f k)) ys)
      = map (\<lambda>k. (k, f k)) (insort_key g k ys)" for ys
    by (induction ys) auto
  show ?case
    using Cons by (simp add: ins)
qed

lemma Object_entries_tally:
  "Object_entries (tally ws) = map (\<lambda>w. (w, Num (count_list ws w))) (key_order ws)"
  using sort_key_tabulate [of digits_value "\<lambda>w. Num (count_list ws w)"]
  by (simp add: Object_entries_def tally_def key_order_def filter_map comp_def)

lemma tally_all_Num: "list_all (\<lambda>b. is_Num (snd b)) (Object_entries (tally ws))"
  by (simp add: Object_entries_tally list_all_iff is_Num_def)

text \<open>
  On texts without the two inherited names the function does what its code reads like:
  every distinct pooled word is paired with the number of its occurrences, the pairs,
  taken in the order of \<open>key_order\<close>, are sorted stably by descending count, and the
  first ten are returned.
\<close>

lemma extractTopKeywords_sorted_entries:
  assumes "no_inherited texts"
  shows "extractTopKeywords texts =
     map (\<lambda>e. \<lparr>keyword = fst e, count = snd e\<rparr>)
       (take 10 (sort_key neg_count
          (map (\<lambda>w. (w, Num (count_list (words_of texts) w))) (key_order (words_of texts)))))"
proof -
  have "wordCounts (words_of texts) = tally (words_of texts)"
    using no_inherited_words [OF assms] by (rule wordCounts_tally)
  then show ?thesis
    using tally_all_Num [of "words_of texts"]
    by (simp add: extractTopKeywords_def Array_sort_Num Object_entries_tally)
qed

lemma extractTopKeywords_length: "length (extractTopKeywords texts) \<le> 10"
  by (simp add: extractTopKeywords_def)

lemma extractTopKeywords_descending:
  assumes "no_inherited texts"
  shows "sorted (map (\<lambda>e. neg_count (keyword e, count e)) (extractTopKeywords texts))"
proof -
  let ?E = "map (\<lambda>w. (w, Num (count_list (words_of texts) w))) (key_order (words_of texts))"
  have "map (\<lambda>e. neg_count (keyword e, count e)) (extractTopKeywords texts)
      = take 10 (map neg_count (sort_key neg_count ?E))"
    by (simp add: extractTopKeywords_sorted_entries [OF assms] comp_def take_map)
  moreover have "sorted (take 10 (map neg_count (sort_key neg_count ?E)))"
    by (rule sorted_wrt_take) (rule sorted_sort_key)
  ultimately show ?thesis
    by simp
qed

lemma extractTopKeywords_example:
  "extractTopKeywords [''the cat sat'', ''cat runs fast''] =
     [\<lparr>keyword = ''cat'', count = Num 2\<rparr>, \<lparr>keyword = ''sat'', count = Num 1\<rparr>,
      \<lparr>keyword = ''runs'', count = Num 1\<rparr>, \<lparr>keyword = ''fast'', count = Num 1\<rparr>]"
  by code_simp

text \<open>
  Claim C1. The result pairs every distinct pooled word (lower-cased, split at white
  space, stop words and words of at most two code units dropped) with the number of its
  occurrences. The code departs from that on the words that name a property of
  \<^verbatim>\<open>Object.prototype\<close>: for \<^verbatim>\<open>constructor\<close> the stored count is the text of the inherited
  function followed by \<open>1\<close>, not a number, and \<^verbatim>\<open>__proto__\<close> is not counted at all.
\<close>

theorem inherited_key_count:
  "extractTopKeywords [''constructor''] =
     [\<lparr>keyword = ''constructor'', count = Str ''function Object() { [native code] }1''\<rparr>]
   \<and> extractTopKeywords [''__proto__ cat''] = [\<lparr>keyword = ''cat'', count = Num 1\<rparr>]"
  by code_simp

text \<open>
  Claim C6. The result has at most ten entries (\<open>extractTopKeywords_length\<close>) and is
  meant to be in descending order of count. The code departs from the order when a word
  names an inherited property: its count is no number, every comparison with it gives
  \<^verbatim>\<open>NaN\<close>, and a count of 1 stays in front of a count of 2.
\<close>

theorem inherited_key_order:
  "extractTopKeywords [''cat constructor dog dog''] =
     [\<lparr>keyword = ''cat'', count = Num 1\<rparr>,
      \<lparr>keyword = ''constructor'', count = Str ''function Object() { [native code] }1''\<rparr>,
      \<lparr>keyword = ''dog'', count = Num 2\<rparr>]"
  by code_simp

lemma words_of_filtered:
  assumes "\<forall>t \<in> set texts. \<forall>w \<in> set (split_ws (toLowerCase t)). w \<in> stopWords \<or> length w \<le> 2"
  shows "words_of texts = []"
proof -
  have "filter (\<lambda>word. word \<notin> stopWords \<and> length word > 2) (split_ws (toLowerCase t)) = []"
    if "t \<in> set texts" for t
    using assms that by (fastforce simp add: filter_empty_conv)
  then show ?thesis
    by (simp add: words_of_def)
qed

text \<open>
  Claim C7. \<^verbatim>\<open>extractTopKeywords\<close> always returns a list (no operation in it can throw
  on strings, so the model has no error result): the empty list for no texts, and the
  empty list whenever every piece of every text is a stop word or has at most two code
  units, as for the text "a an to", for the empty text and for texts of stop words and
  white space only.
\<close>

theorem extractTopKeywords_nothing_left:
  "extractTopKeywords [] = []
   \<and> ((\<forall>t \<in> set texts. \<forall>w \<in> set (split_ws (toLowerCase t)). w \<in> stopWords \<or> length w \<le> 2)
        \<longrightarrow> extractTopKeywords texts = [])
   \<and> extractTopKeywords [''a an to''] = []
   \<and> extractTopKeywords [[]] = []
   \<and> extractTopKeywords [''The of'', ''  '', ''to be''] = []"
proof -
  have none: "extractTopKeywords ts = []" if "words_of ts = []" for ts
    using that
    by (simp add: extractTopKeywords_def wordCounts_def Object_entries_def Array_sort_def)
  have "extractTopKeywords [] = []"
    by (rule none) (simp add: words_of_def)
  moreover have "extractTopKeywords [''a an to''] = []"
    by code_simp
  moreover have "extractTopKeywords [[]] = []"
    by code_simp
  moreover have "extractTopKeywords [''The of'', ''  '', ''to be''] = []"
    by code_simp
  ultimately show ?thesis
    using none [OF words_of_filtered [of texts]] by blast
qed

theorem extractTopKeywords_nothing_left_witness:
  "list_all (\<lambda>t. list_all (\<lambda>w. w \<in> stopWords \<or> length w \<le> 2) (split_ws (toLowerCase t)))
        [''a an to'', [], ''THE of'']
   \<and> extractTopKeywords [''a an to'', [], ''THE of''] = []"
proof -
  have h: "\<forall>t \<in> set [''a an to'', [], ''THE of''].
      \<forall>w \<in> set (split_ws (toLowerCase t)). w \<in> stopWords \<or> length w \<le> 2"
    by code_simp
  have "extractTopKeywords [''a an to'', [], ''THE of''] = []"
    using extractTopKeywords_nothing_left [of "[''a an to'', [], ''THE of'']"] h by blast
  then show ?thesis
    using h by (simp add: list_all_iff)
qed

lemma prefix_filter_take: "prefix (filter P (take n xs)) (filter P xs)"
proof -
  have "filter P xs = filter P (take n xs) @ filter P (drop n xs)"
    by (metis append_take_drop_id filter_append)
  then show ?thesis
    by (simp add: prefix_def)
qed

text \<open>
  Claim C10, as it stands, fails: the words "cat" and "100" occur once each, "cat" first,
  and the result lists "100" first, because \<^verbatim>\<open>Object.entries\<close> lists an array index
  before every other key.
\<close>

theorem tie_order_counterexample:
  "words_of [''cat 100''] = [''cat'', ''100'']
   \<and> extractTopKeywords [''cat 100''] =
       [\<lparr>keyword = ''100'', count = Num 1\<rparr>, \<lparr>keyword = ''cat'', count = Num 1\<rparr>]"
  by code_simp

text \<open>
  Claim C10, amended. On texts without the two inherited names, the keywords of the
  result that share a count \<open>n\<close> stand in the order of \<open>key_order\<close>: they are an initial
  part of the words that occur \<open>n\<close> times, listed with the array indices first, in
  ascending numeric order, and then the other words by their first occurrence in the
  pooled stream. The ranking of ties is thus a function of the input texts.
\<close>

theorem ties_in_key_order:
  assumes "no_inherited texts"
  shows "prefix (map keyword (filter (\<lambda>e. count e = Num n) (extractTopKeywords texts)))
           (filter (\<lambda>w. count_list (words_of texts) w = n) (key_order (words_of texts)))"
proof -
  let ?ws = "words_of texts"
  let ?E = "map (\<lambda>w. (w, Num (count_list ?ws w))) (key_order ?ws)"
  let ?S = "sort_key neg_count ?E"
  have res: "map keyword (filter (\<lambda>e. count e = Num n) (extractTopKeywords texts))
      = map fst (filter (\<lambda>e. snd e = Num n) (take 10 ?S))"
    by (simp add: extractTopKeywords_sorted_entries [OF assms] filter_map comp_def)
  have num: "neg_count e = - int n \<longleftrightarrow> snd e = Num n" if "e \<in> set ?E" for e
    using that by (auto simp add: neg_count_def)
  have "filter (\<lambda>e. snd e = Num n) ?S = filter (\<lambda>e. neg_count e = - int n) ?S"
    by (rule filter_cong) (use num in auto)
  also have "\<dots> = filter (\<lambda>e. neg_count e = - int n) ?E"
    by (rule sort_key_stable)
  also have "\<dots> = filter (\<lambda>e. snd e = Num n) ?E"
    by (rule filter_cong) (use num in auto)
  finally have stable: "filter (\<lambda>e. snd e = Num n) ?S = filter (\<lambda>e. snd e = Num n) ?E" .
  have "prefix (filter (\<lambda>e. snd e = Num n) (take 10 ?S)) (filter (\<lambda>e. snd e = Num n) ?S)"
    by (rule prefix_filter_take)
  then have "prefix (map fst (filter (\<lambda>e. snd e = Num n) (take 10 ?S)))
      (map fst (filter (\<lambda>e. snd e = Num n) ?E))"
    unfolding stable by (rule map_mono_prefix)
  moreover have "map fst (filter (\<lambda>e. snd e = Num n) ?E)
      = filter (\<lambda>w. count_list ?ws w = n) (key_order ?ws)"
    by (simp add: filter_map comp_def)
  ultimately show ?thesis
    by (simp add: res)
qed

theorem ties_in_key_order_witness:
  "no_inherited [''dog 100 cat'', ''007 dog'']
   \<and> map keyword (filter (\<lambda>e. count e = Num 1) (extractTopKeywords [''dog 100 cat'', ''007 dog'']))
       = [''100'', ''cat'', ''007'']
   \<and> prefix [''100'', ''cat'', ''007'']
       (filter (\<lambda>w. count_list (words_of [''dog 100 cat'', ''007 dog'']) w = 1)
          (key_order (words_of [''dog 100 cat'', ''007 dog''])))"
proof -
  have h: "no_inherited [''dog 100 cat'', ''007 dog'']"
    by code_simp
  have r: "map keyword (filter (\<lambda>e. count e = Num 1) (extractTopKeywords [''dog 100 cat'', ''007 dog'']))
       = [''100'', ''cat'', ''007'']"
    by code_simp
  show ?thesis
    using ties_in_key_order [OF h, of 1] h r by simp
qed

section \<open>The aggregation and the wall clock\<close>

text \<open>
  Claim C8, as it stands, fails: the aggregation takes no instant as a parameter but
  reads the wall clock once for every point. Two runs on the same posts and sentiments
  that begin at the same instant give different results when the clock advances between
  two readings of one of them.
\<close>

theorem aggregate_clock_counterexample:
  "ticking_clock 0 = frozen_clock 0
   \<and> aggregate coarse_distance ticking_clock two_posts two_sentiments
       \<noteq> aggregate coarse_distance frozen_clock two_posts two_sentiments"
  by (simp add: aggregate_def sentimentOverTime_of_def point_at_def formatDistance_call_def
      new_Date_def two_posts_def two_sentiments_def coarse_distance_def ticking_clock_def
      frozen_clock_def upt_rec)

text \<open>
  Claim C8, amended. The aggregation is a function of the posts, the sentiments and the
  readings of the wall clock, one for each point. What it throws (on an invalid date of
  a post, or on a sentiment without a post) does not depend on the clock. When it
  returns a result, a second run on the same posts and sentiments returns one too,
  whatever its clock shows, and the two agree on the overall score, the values of the
  points, the distribution, the confidence scores and the keywords; the label of point
  \<open>i\<close> is \<^verbatim>\<open>formatDistance\<close> of the date of post \<open>i\<close> and of the \<open>i\<close>-th reading; and the two
  results are equal when the readings are. For index-aligned inputs with valid dates the
  aggregation returns a result.
\<close>

theorem aggregate_clock_readings:
  "(case aggregate fd ck ps ss of
      Inl e \<Rightarrow> aggregate fd ck' ps ss = Inl e
    | Inr d \<Rightarrow>
        (\<exists>d'. aggregate fd ck' ps ss = Inr d'
           \<and> overallScore d = overallScore d'
           \<and> map y_point (sentimentOverTime d) = map y_point (sentimentOverTime d')
           \<and> sentimentDistribution d = sentimentDistribution d'
           \<and> confidenceScores d = confidenceScores d'
           \<and> topKeywords d = topKeywords d'
           \<and> map x_point (sentimentOverTime d) =
               map (\<lambda>i. fd (created_at (ps ! i)) (ck i)) [0..<length ss]
           \<and> (map ck [0..<length ss] = map ck' [0..<length ss] \<longrightarrow> d = d')))
   \<and> (length ss \<le> length ps
        \<and> list_all (\<lambda>p. new_Date (created_at p) \<noteq> None) (take (length ss) ps)
      \<longrightarrow> (\<exists>d. aggregate fd ck ps ss = Inr d))"
proof (intro conjI impI)
  show "case aggregate fd ck ps ss of
      Inl e \<Rightarrow> aggregate fd ck' ps ss = Inl e
    | Inr d \<Rightarrow>
        (\<exists>d'. aggregate fd ck' ps ss = Inr d'
           \<and> overallScore d = overallScore d'
           \<and> map y_point (sentimentOverTime d) = map y_point (sentimentOverTime d')
           \<and> sentimentDistribution d = sentimentDistribution d'
           \<and> confidenceScores d = confidenceScores d'
           \<and> topKeywords d = topKeywords d'
           \<and> map x_point (sentimentOverTime d) =
               map (\<lambda>i. fd (created_at (ps ! i)) (ck i)) [0..<length ss]
           \<and> (map ck [0..<length ss] = map ck' [0..<length ss] \<longrightarrow> d = d'))"
  proof (cases "aggregate fd ck ps ss")
    case (Inl e)
    then have "map_throwing (point_at fd ck ps ss) [0..<length ss] = Inl e"
      by (simp add: aggregate_Inl sentimentOverTime_of_def)
    moreover have "isl (point_at fd ck' ps ss i) = isl (point_at fd ck ps ss i)
        \<and> (isl (point_at fd ck ps ss i) \<longrightarrow> point_at fd ck' ps ss i = point_at fd ck ps ss i)" for i
      using point_at_clock [of fd ck ps ss i ck'] by (simp add: point_at_isl)
    ultimately have "map_throwing (point_at fd ck' ps ss) [0..<length ss] = Inl e"
      by (rule map_throwing_Inl)
    then show ?thesis
      by (simp add: Inl aggregate_Inl sentimentOverTime_of_def)
  next
    case (Inr d)
    let ?n = "[0..<length ss]"
    from aggregate_Inr [OF Inr]
    have ok: "\<forall>i \<in> set ?n. \<not> isl (point_at fd ck ps ss i)"
      and pts: "sentimentOverTime d = map (\<lambda>i. projr (point_at fd ck ps ss i)) ?n"
      and rest: "overallScore d = overallScore_of ss" "sentimentDistribution d = distribution_of ss"
        "confidenceScores d = confidenceScores_of ss"
        "topKeywords d = extractTopKeywords (map text_post ps)"
      by (simp_all add: sentimentOverTime_of_def map_throwing_Inr)
    have ok': "\<forall>i \<in> set ?n. \<not> isl (point_at fd ck' ps ss i)"
      using ok by (simp add: point_at_isl)
    have pts_eq: "sentimentOverTime d =
        map (\<lambda>i. \<lparr>x_point = fd (created_at (ps ! i)) (ck i), y_point = score (ss ! i)\<rparr>) ?n"
      unfolding pts using ok by (intro map_cong refl point_at_Inr) simp
    define pts' where
      "pts' = map (\<lambda>i. \<lparr>x_point = fd (created_at (ps ! i)) (ck' i), y_point = score (ss ! i)\<rparr>) ?n"
    have "map (\<lambda>i. projr (point_at fd ck' ps ss i)) ?n = pts'"
      unfolding pts'_def using ok' by (intro map_cong refl point_at_Inr) simp
    then have sot': "sentimentOverTime_of fd ck' ps ss = Inr pts'"
      using ok' by (simp add: sentimentOverTime_of_def map_throwing_Inr)
    define d' where "d' = d\<lparr>sentimentOverTime := pts'\<rparr>"
    have agg': "aggregate fd ck' ps ss = Inr d'"
      using rest by (simp add: aggregate_def sot' d'_def)
    have same: "d = d'" if "map ck ?n = map ck' ?n"
    proof -
      have "pts' = sentimentOverTime d"
        unfolding pts'_def pts_eq using that by (auto simp add: map_eq_conv)
      then show ?thesis
        by (simp add: d'_def)
    qed
    have f1: "overallScore d = overallScore d'" "sentimentDistribution d = sentimentDistribution d'"
      "confidenceScores d = confidenceScores d'" "topKeywords d = topKeywords d'"
      by (simp_all add: d'_def)
    have f2: "map y_point (sentimentOverTime d) = map y_point (sentimentOverTime d')"
      by (simp add: d'_def pts_eq pts'_def comp_def)
    have f3: "map x_point (sentimentOverTime d) =
               map (\<lambda>i. fd (created_at (ps ! i)) (ck i)) [0..<length ss]"
      by (simp add: pts_eq comp_def)
    have "\<exists>d'. aggregate fd ck' ps ss = Inr d'
           \<and> overallScore d = overallScore d'
           \<and> map y_point (sentimentOverTime d) = map y_point (sentimentOverTime d')
           \<and> sentimentDistribution d = sentimentDistribution d'
           \<and> confidenceScores d = confidenceScores d'
           \<and> topKeywords d = topKeywords d'
           \<and> map x_point (sentimentOverTime d) =
               map (\<lambda>i. fd (created_at (ps ! i)) (ck i)) [0..<length ss]
           \<and> (map ck [0..<length ss] = map ck' [0..<length ss] \<longrightarrow> d = d')"
      using agg' f1 f2 f3 same by blast
    then show ?thesis
      by (simp only: Inr sum.case)
  qed
next
  assume "length ss \<le> length ps
        \<and> list_all (\<lambda>p. new_Date (created_at p) \<noteq> None) (take (length ss) ps)"
  then show "\<exists>d. aggregate fd ck ps ss = Inr d"
    using aggregate_returns by blast
qed

theorem aggregate_clock_readings_witness:
  "length two_sentiments \<le> length two_posts
   \<and> list_all (\<lambda>p. new_Date (created_at p) \<noteq> None) (take (length two_sentiments) two_posts)
   \<and> map ticking_clock [0..<length two_sentiments] = [29999, 30000]
   \<and> (\<exists>d. aggregate coarse_distance ticking_clock two_posts two_sentiments = Inr d
        \<and> map x_point (sentimentOverTime d) = [''less than a minute ago'', ''1 minute ago''])"
proof -
  have len: "length two_sentiments \<le> length two_posts"
    by (simp add: two_sentiments_def two_posts_def)
  have valid: "list_all (\<lambda>p. new_Date (created_at p) \<noteq> None)
      (take (length two_sentiments) two_posts)"
    by (simp add: two_sentiments_def two_posts_def new_Date_def)
  have upt: "[0..<length two_sentiments] = [0, 1]"
    by (simp add: two_sentiments_def upt_rec)
  note inst = aggregate_clock_readings [of coarse_distance ticking_clock two_posts two_sentiments
      ticking_clock]
  from inst len valid
  obtain d where d: "aggregate coarse_distance ticking_clock two_posts two_sentiments = Inr d"
    by blast
  from inst have "map x_point (sentimentOverTime d) =
          map (\<lambda>i. coarse_distance (created_at (two_posts ! i)) (ticking_clock i))
            [0..<length two_sentiments]"
    unfolding d sum.case by blast
  then have "map x_point (sentimentOverTime d) = [''less than a minute ago'', ''1 minute ago'']"
    by (simp add: upt two_posts_def coarse_distance_def ticking_clock_def)
  moreover have "map ticking_clock [0..<length two_sentiments] = [29999, 30000]"
    by (simp add: upt ticking_clock_def)
  ultimately have "\<exists>d. aggregate coarse_distance ticking_clock two_posts two_sentiments = Inr d
        \<and> map x_point (sentimentOverTime d) = [''less than a minute ago'', ''1 minute ago'']"
    and "map ticking_clock [0..<length two_sentiments] = [29999, 30000]"
    using d by simp_all
  with len valid show ?thesis
    by (intro conjI)
qed

section \<open>A failed scoring\<close>

lemma fold_earliest:
  "fold (\<lambda>j best. if f j < f best then j else best) js i \<in> set (i # js)
   \<and> (\<forall>j \<in> set (i # js). (f (fold (\<lambda>j best. if f j < f best then j else best) js i) :: nat) \<le> f j)"
proof (induction js arbitrary: i)
  case Nil
  then show ?case by simp
next
  case (Cons a js)
  show ?case
    using Cons.IH [of "if f a < f i then a else i"] by (auto split: if_splits)
qed

lemma first_rejection_Some:
  assumes "\<exists>i < length rs. isl (rs ! i)"
  shows "\<exists>i. first_rejection settled rs = Some i \<and> i < length rs \<and> isl (rs ! i)
           \<and> (\<forall>j < length rs. isl (rs ! j) \<longrightarrow> settled i \<le> settled j)"
proof -
  let ?F = "filter (\<lambda>i. isl (rs ! i)) [0..<length rs]"
  have setF: "set ?F = {i. i < length rs \<and> isl (rs ! i)}"
    by auto
  with assms have "?F \<noteq> []"
    by (metis (mono_tags, lifting) empty_iff list.set(1) mem_Collect_eq)
  then obtain i0 js where F: "?F = i0 # js"
    by (cases ?F) auto
  let ?r = "fold (\<lambda>j best. if settled j < settled best then j else best) js i0"
  have r: "?r \<in> set ?F" and least: "\<forall>j \<in> set ?F. settled ?r \<le> settled j"
    using fold_earliest [of settled js i0] unfolding F by blast+
  have "first_rejection settled rs = Some ?r"
    by (simp add: first_rejection_def F)
  moreover have "?r < length rs \<and> isl (rs ! ?r)"
    using r unfolding setF by simp
  moreover have "\<forall>j < length rs. isl (rs ! j) \<longrightarrow> settled ?r \<le> settled j"
    using least unfolding setF by simp
  ultimately show ?thesis
    by blast
qed

text \<open>
  Claim C9, as it stands, fails: a scoring that fails on the first request leaves the
  error notification, but the panel, which showed nothing before, now shows the initial
  aggregate (overall score 0, "Neutral") together with the fetched posts.
\<close>

theorem failed_scoring_changes_panel:
  "Dashboard_panel (initial_state\<lparr>query := ''cats''\<rparr>) = None
   \<and> Dashboard_panel (handleAnalyze failing_env (initial_state\<lparr>query := ''cats''\<rparr>)) =
       Some \<lparr>panel_data = sentimentData initial_state, panel_label = ''Neutral'',
             panel_posts = two_posts\<rparr>
   \<and> toasts (handleAnalyze failing_env (initial_state\<lparr>query := ''cats''\<rparr>))
       = [Toast_error ''quota exceeded'']"
  by (simp add: Dashboard_panel_def initial_state_def handleAnalyze_def failing_env_def
      trim_def is_space_def Promise_all_def first_rejection_def catch_block_def
      finally_block_def overallLabel_def num_lt_def two_posts_def upt_rec)

text \<open>
  Claim C9, amended. When the query is not blank, the posts are fetched and the scoring
  of some post fails, the request ends with one error notification, which carries the
  message of the failure that settled first (a fixed text when it is no \<^verbatim>\<open>Error\<close>), and
  with both flags cleared. No aggregate is computed: \<^verbatim>\<open>sentimentData\<close> keeps the value it
  had before the request. The posts of the state are the fetched ones, so the panel
  shows the earlier aggregate next to the first five fetched posts.
\<close>

theorem scoring_failure:
  "trim (query s) \<noteq> [] \<and> fetchTweets e (query s) = Inr fetchedPosts
   \<and> (\<exists>i < length fetchedPosts. isl (analyzeSentiment e i (text_post (fetchedPosts ! i))))
   \<longrightarrow>
   (\<exists>i err. i < length fetchedPosts
      \<and> analyzeSentiment e i (text_post (fetchedPosts ! i)) = Inl err
      \<and> (\<forall>j < length fetchedPosts. isl (analyzeSentiment e j (text_post (fetchedPosts ! j)))
            \<longrightarrow> settled_at e i \<le> settled_at e j)
      \<and> handleAnalyze e s =
          s\<lparr>posts := fetchedPosts, loading := False, analyzing := False,
            toasts := toasts s @ [Toast_error (case err of Error m \<Rightarrow> m
                                               | NonError \<Rightarrow> ''An error occurred'')]\<rparr>
      \<and> sentimentData (handleAnalyze e s) = sentimentData s
      \<and> Dashboard_panel (handleAnalyze e s) =
          Some \<lparr>panel_data = sentimentData s,
                panel_label = overallLabel (overallScore (sentimentData s)),
                panel_posts = take 5 fetchedPosts\<rparr>)"
proof (intro impI, elim conjE)
  assume q: "trim (query s) \<noteq> []" and f: "fetchTweets e (query s) = Inr fetchedPosts"
    and ex: "\<exists>i < length fetchedPosts. isl (analyzeSentiment e i (text_post (fetchedPosts ! i)))"
  let ?rs = "map (\<lambda>i. analyzeSentiment e i (text_post (fetchedPosts ! i))) [0..<length fetchedPosts]"
  have nth: "?rs ! j = analyzeSentiment e j (text_post (fetchedPosts ! j))"
    if "j < length fetchedPosts" for j
    using that by simp
  from ex obtain k where "k < length ?rs" and "isl (?rs ! k)"
    by (auto simp add: nth)
  then have "\<exists>i < length ?rs. isl (?rs ! i)"
    by blast
  from first_rejection_Some [OF this, of "settled_at e"]
  obtain i where fr: "first_rejection (settled_at e) ?rs = Some i" and i': "i < length ?rs"
    and isl': "isl (?rs ! i)"
    and least': "\<forall>j < length ?rs. isl (?rs ! j) \<longrightarrow> settled_at e i \<le> settled_at e j"
    by blast
  have i: "i < length fetchedPosts"
    using i' by simp
  have isl: "isl (analyzeSentiment e i (text_post (fetchedPosts ! i)))"
    using isl' nth [OF i] by simp
  have least: "\<forall>j < length fetchedPosts. isl (analyzeSentiment e j (text_post (fetchedPosts ! j)))
            \<longrightarrow> settled_at e i \<le> settled_at e j"
    using least' by (auto simp add: nth)
  from isl obtain err where err: "analyzeSentiment e i (text_post (fetchedPosts ! i)) = Inl err"
    by (cases "analyzeSentiment e i (text_post (fetchedPosts ! i))") auto
  have pa: "Promise_all (settled_at e) ?rs = Inl err"
    using i err by (simp add: Promise_all_def fr)
  have h: "handleAnalyze e s =
          s\<lparr>posts := fetchedPosts, loading := False, analyzing := False,
            toasts := toasts s @ [Toast_error (case err of Error m \<Rightarrow> m
                                               | NonError \<Rightarrow> ''An error occurred'')]\<rparr>"
    using q f by (simp add: handleAnalyze_def pa catch_block_def finally_block_def)
  have ne: "fetchedPosts \<noteq> []"
    using i by auto
  have "Dashboard_panel (handleAnalyze e s) =
          Some \<lparr>panel_data = sentimentData s,
                panel_label = overallLabel (overallScore (sentimentData s)),
                panel_posts = take 5 fetchedPosts\<rparr>"
    using ne by (simp add: h Dashboard_panel_def)
  with i err least h show "\<exists>i err. i < length fetchedPosts
      \<and> analyzeSentiment e i (text_post (fetchedPosts ! i)) = Inl err
      \<and> (\<forall>j < length fetchedPosts. isl (analyzeSentiment e j (text_post (fetchedPosts ! j)))
            \<longrightarrow> settled_at e i \<le> settled_at e j)
      \<and> handleAnalyze e s =
          s\<lparr>posts := fetchedPosts, loading := False, analyzing := False,
            toasts := toasts s @ [Toast_error (case err of Error m \<Rightarrow> m
                                               | NonError \<Rightarrow> ''An error occurred'')]\<rparr>
      \<and> sentimentData (handleAnalyze e s) = sentimentData s
      \<and> Dashboard_panel (handleAnalyze e s) =
          Some \<lparr>panel_data = sentimentData s,
                panel_label = overallLabel (overallScore (sentimentData s)),
                panel_posts = take 5 fetchedPosts\<rparr>"
    by (intro exI [of _ i] exI [of _ err]) simp
qed

theorem scoring_failure_witness:
  "trim (query (initial_state\<lparr>query := ''cats''\<rparr>)) \<noteq> []
   \<and> fetchTweets failing_env (query (initial_state\<lparr>query := ''cats''\<rparr>)) = Inr two_posts
   \<and> isl (analyzeSentiment failing_env 1 (text_post (two_posts ! 1)))
   \<and> sentimentData (handleAnalyze failing_env (initial_state\<lparr>query := ''cats''\<rparr>))
       = sentimentData initial_state
   \<and> posts (handleAnalyze failing_env (initial_state\<lparr>query := ''cats''\<rparr>)) = two_posts"
proof -
  let ?s = "initial_state\<lparr>query := ''cats''\<rparr>"
  have q: "trim (query ?s) \<noteq> []"
    by (simp add: trim_def is_space_def)
  have f: "fetchTweets failing_env (query ?s) = Inr two_posts"
    by (simp add: failing_env_def)
  have r: "isl (analyzeSentiment failing_env 1 (text_post (two_posts ! 1)))"
    by (simp add: failing_env_def)
  have "\<exists>i < length two_posts. isl (analyzeSentiment failing_env i (text_post (two_posts ! i)))"
    using r by (intro exI [of _ 1]) (simp add: two_posts_def)
  with scoring_failure [of ?s failing_env two_posts] q f
  obtain err where "handleAnalyze failing_env ?s =
          ?s\<lparr>posts := two_posts, loading := False, analyzing := False,
            toasts := toasts ?s @ [Toast_error (case err of Error m \<Rightarrow> m
                                               | NonError \<Rightarrow> ''An error occurred'')]\<rparr>"
    by blast
  then show ?thesis
    using q f r by simp
qed

end
